theory Spec2Isabelle
  imports Main
begin

section \<open>Python strings and values\<close>

text \<open>
  A Python \<open>str\<close> is a sequence of Unicode code points. It is modelled as a list of
  natural numbers (the code points), since a JSON escape \<open>\uXXXX\<close> in plain ASCII
  text denotes a code point beyond any byte. \<open>py\<close> turns a literal into such a list and
  \<open>ord\<close> is Python's \<open>ord\<close> of one character.
\<close>

type_synonym pystr = "nat list"

abbreviation (input) ord :: "char \<Rightarrow> nat" where
  "ord c \<equiv> of_char c"

definition py :: "string \<Rightarrow> pystr" where
  "py s = map of_char s"

definition startswith :: "pystr \<Rightarrow> pystr \<Rightarrow> bool" where
  "startswith s p = (take (length p) s = p)"

text \<open>
  \<open>str.isspace\<close>, which is also the class \<open>\s\<close> of \<open>re\<close> on a \<open>str\<close> pattern and
  the set \<open>str.strip()\<close> removes.
\<close>

definition isspace :: "nat \<Rightarrow> bool" where
  "isspace c = ((9 \<le> c \<and> c \<le> 13) \<or> (28 \<le> c \<and> c \<le> 32) \<or> c = 133 \<or> c = 160
     \<or> c = 5760 \<or> (8192 \<le> c \<and> c \<le> 8202) \<or> c = 8232 \<or> c = 8233 \<or> c = 8239
     \<or> c = 8287 \<or> c = 12288)"

definition strip :: "pystr \<Rightarrow> pystr" where
  "strip s = rev (dropWhile isspace (rev (dropWhile isspace s)))"

text \<open>
  The values \<open>json.loads\<close> builds and \<open>json.dumps\<close> prints: \<open>None\<close>, \<open>bool\<close>, \<open>int\<close>,
  \<open>float\<close>, \<open>str\<close>, \<open>list\<close> and \<open>dict\<close>. A \<open>dict\<close> is an association
  list in insertion order whose keys are strings. A \<open>float\<close> is kept as the text of
  its literal (\<open>1.5\<close>, \<open>-2e10\<close>, \<open>NaN\<close>, \<open>Infinity\<close>, \<open>-Infinity\<close>): binary
  floating point is not interpreted, and where Python prints the \<open>repr\<close> of the float
  the model prints the literal it read.
\<close>

datatype json =
    JNull
  | JBool bool
  | JInt int
  | JFloat pystr
  | JString pystr
  | JArray "json list"
  | JObject "(pystr \<times> json) list"

datatype error =
    JSONDecodeError | ValueError | RecursionError | KeyError | TypeError | AttributeError
  | ValidationError

text \<open>
  What the interpreter allows at the call, beyond the text: how many containers
  \<open>json.loads\<close>, \<open>json.dumps\<close> and \<open>json.dumps(..., indent=2)\<close> may nest one in
  another before they raise \<open>RecursionError\<close>. The three depths follow from the
  recursion limit and from the depth of the call, which the source does not fix, so
  they are parameters of every function that calls the library.
\<close>

record interpreter =
  loads_depth :: nat
  dumps_depth :: nat
  indent_depth :: nat

text \<open>
  \<open>sys.int_info.default_max_str_digits\<close>: the conversion between an \<open>int\<close> and its
  decimal text raises \<open>ValueError\<close> beyond this number of digits.
\<close>

definition max_str_digits :: nat where
  "max_str_digits = 4300"

subsection \<open>Dictionaries\<close>

fun dict_get :: "(pystr \<times> json) list \<Rightarrow> pystr \<Rightarrow> json option" where
  "dict_get [] k = None"
| "dict_get ((k', v) # kvs) k = (if k' = k then Some v else dict_get kvs k)"

text \<open>\<open>d[k] = v\<close>: an existing key keeps its place, a new key goes last.\<close>

fun dict_set :: "(pystr \<times> json) list \<Rightarrow> pystr \<Rightarrow> json \<Rightarrow> (pystr \<times> json) list" where
  "dict_set [] k v = [(k, v)]"
| "dict_set ((k', v') # kvs) k v =
     (if k' = k then (k, v) # kvs else (k', v') # dict_set kvs k v)"

text \<open>\<open>dict(pairs)\<close>: the pairs are inserted in order.\<close>

definition dict_of_pairs :: "(pystr \<times> json) list \<Rightarrow> (pystr \<times> json) list" where
  "dict_of_pairs ps = foldl (\<lambda>d (k, v). dict_set d k v) [] ps"

section \<open>json.loads\<close>

text \<open>JSON whitespace: space, tab, line feed, carriage return.\<close>

definition is_ws :: "nat \<Rightarrow> bool" where
  "is_ws c = (c = 32 \<or> c = 9 \<or> c = 10 \<or> c = 13)"

definition skip_ws :: "pystr \<Rightarrow> pystr" where
  "skip_ws s = dropWhile is_ws s"

definition is_digit :: "nat \<Rightarrow> bool" where
  "is_digit c = (48 \<le> c \<and> c \<le> 57)"

definition hexval :: "nat \<Rightarrow> nat option" where
  "hexval c =
     (if 48 \<le> c \<and> c \<le> 57 then Some (c - 48)
      else if 97 \<le> c \<and> c \<le> 102 then Some (c - 87)
      else if 65 \<le> c \<and> c \<le> 70 then Some (c - 55)
      else None)"

text \<open>The four hexadecimal digits of a \<open>\uXXXX\<close> escape.\<close>

fun decode_uXXXX :: "pystr \<Rightarrow> nat option" where
  "decode_uXXXX [a, b, c, d] =
     (case (hexval a, hexval b, hexval c, hexval d) of
        (Some x, Some y, Some z, Some w) \<Rightarrow> Some (((x * 16 + y) * 16 + z) * 16 + w)
      | _ \<Rightarrow> None)"
| "decode_uXXXX _ = None"

definition is_high_surrogate :: "nat \<Rightarrow> bool" where
  "is_high_surrogate u = (55296 \<le> u \<and> u \<le> 56319)"

definition is_low_surrogate :: "nat \<Rightarrow> bool" where
  "is_low_surrogate u = (56320 \<le> u \<and> u \<le> 57343)"

definition join_surrogates :: "nat \<Rightarrow> nat \<Rightarrow> nat" where
  "join_surrogates hi lo = 65536 + ((hi - 55296) * 1024 + (lo - 56320))"

text \<open>
  The low surrogate of a pair: the text after a high surrogate's escape starts with
  another escape \<open>\uXXXX\<close> whose value is a low surrogate.
\<close>

definition low_surrogate_next :: "pystr \<Rightarrow> nat option" where
  "low_surrogate_next s =
     (if startswith s [92, 117] then
        (case decode_uXXXX (take 4 (drop 2 s)) of
           Some lo \<Rightarrow> if is_low_surrogate lo then Some lo else None
         | None \<Rightarrow> None)
      else None)"

text \<open>The character a one-letter escape stands for.\<close>

definition backslash :: "nat \<Rightarrow> nat option" where
  "backslash e =
     (if e = ord CHR 0x22 then Some 34
      else if e = 92 then Some 92
      else if e = ord CHR ''/'' then Some 47
      else if e = ord CHR ''b'' then Some 8
      else if e = ord CHR ''f'' then Some 12
      else if e = ord CHR ''n'' then Some 10
      else if e = ord CHR ''r'' then Some 13
      else if e = ord CHR ''t'' then Some 9
      else None)"

definition cons_fst :: "'a \<Rightarrow> ('a list \<times> 'b) option \<Rightarrow> ('a list \<times> 'b) option" where
  "cons_fst x r = (case r of None \<Rightarrow> None | Some (xs, rest) \<Rightarrow> Some (x # xs, rest))"

text \<open>
  \<open>scanstring\<close>, from the character after the opening quote: the decoded string and
  the text after the closing quote. A control character below 32, an unknown escape
  and a missing closing quote are errors (\<open>None\<close>).
\<close>

fun scanstring :: "pystr \<Rightarrow> (pystr \<times> pystr) option" where
  "scanstring [] = None"
| "scanstring (c # cs) =
     (if c = 34 then Some ([], cs)
      else if c < 32 then None
      else if c = 92 then
        (case cs of
           [] \<Rightarrow> None
         | e # es \<Rightarrow>
             if e = ord CHR ''u'' then
               (case decode_uXXXX (take 4 es) of
                  None \<Rightarrow> None
                | Some uni \<Rightarrow>
                    (case (if is_high_surrogate uni then low_surrogate_next (drop 4 es) else None) of
                       Some lo \<Rightarrow> cons_fst (join_surrogates uni lo) (scanstring (drop 10 es))
                     | None \<Rightarrow> cons_fst uni (scanstring (drop 4 es))))
             else
               (case backslash e of
                  None \<Rightarrow> None
                | Some x \<Rightarrow> cons_fst x (scanstring es)))
      else cons_fst c (scanstring cs))"


subsection \<open>Numbers\<close>

text \<open>
  The scanner's number pattern \<open>(-?(?:0|[1-9][0-9]*))(\.[0-9]+)?([eE][-+]?[0-9]+)?\<close>:
  a number with neither fraction nor exponent is an \<open>int\<close>, any other a \<open>float\<close>.
  The text of an \<open>int\<close> with more than \<open>max_str_digits\<close> digits is a \<open>ValueError\<close>;
  text that is no number is a \<open>JSONDecodeError\<close>.
\<close>

definition nat_of_digits :: "pystr \<Rightarrow> nat" where
  "nat_of_digits ds = foldl (\<lambda>a d. 10 * a + (d - 48)) 0 ds"

definition match_integer :: "pystr \<Rightarrow> (pystr \<times> pystr) option" where
  "match_integer s =
     (case s of
        [] \<Rightarrow> None
      | d # ds \<Rightarrow>
          if d = 48 then Some ([d], ds)
          else if is_digit d then Some (d # takeWhile is_digit ds, dropWhile is_digit ds)
          else None)"

definition match_frac :: "pystr \<Rightarrow> pystr \<times> pystr" where
  "match_frac s =
     (case s of
        c # d # ds \<Rightarrow>
          if c = ord CHR ''.'' \<and> is_digit d
          then (c # d # takeWhile is_digit ds, dropWhile is_digit ds)
          else ([], s)
      | _ \<Rightarrow> ([], s))"

definition match_sign :: "pystr \<Rightarrow> pystr \<times> pystr" where
  "match_sign s =
     (case s of
        c # r \<Rightarrow> if c = ord CHR ''-'' \<or> c = ord CHR ''+'' then ([c], r) else ([], s)
      | [] \<Rightarrow> ([], s))"

definition match_exp :: "pystr \<Rightarrow> pystr \<times> pystr" where
  "match_exp s =
     (case s of
        e # r \<Rightarrow>
          if e = ord CHR ''e'' \<or> e = ord CHR ''E'' then
            (case match_sign r of
               (sg, d # ds) \<Rightarrow>
                 if is_digit d
                 then (e # sg @ d # takeWhile is_digit ds, dropWhile is_digit ds)
                 else ([], s)
             | (sg, []) \<Rightarrow> ([], s))
          else ([], s)
      | [] \<Rightarrow> ([], s))"

definition match_minus :: "pystr \<Rightarrow> pystr \<times> pystr" where
  "match_minus s =
     (case s of
        c # r \<Rightarrow> if c = ord CHR ''-'' then ([c], r) else ([], s)
      | [] \<Rightarrow> ([], s))"

definition match_number :: "pystr \<Rightarrow> error + (json \<times> pystr)" where
  "match_number s =
     (let (sign, s1) = match_minus s
      in case match_integer s1 of
           None \<Rightarrow> Inl JSONDecodeError
         | Some (ip, s2) \<Rightarrow>
             (let (frac, s3) = match_frac s2; (ex, s4) = match_exp s3
              in if frac = [] \<and> ex = []
                 then (if max_str_digits < length ip then Inl ValueError
                       else Inr (JInt (if sign = [] then int (nat_of_digits ip)
                                       else - int (nat_of_digits ip)), s4))
                 else Inr (JFloat (sign @ ip @ frac @ ex), s4)))"

text \<open>The literals, tried in the scanner's order before a number.\<close>

definition match_literal :: "pystr \<Rightarrow> error + (json \<times> pystr)" where
  "match_literal s =
     (if startswith s (py ''null'') then Inr (JNull, drop 4 s)
      else if startswith s (py ''true'') then Inr (JBool True, drop 4 s)
      else if startswith s (py ''false'') then Inr (JBool False, drop 5 s)
      else if startswith s (py ''NaN'') then Inr (JFloat (py ''NaN''), drop 3 s)
      else if startswith s (py ''Infinity'') then Inr (JFloat (py ''Infinity''), drop 8 s)
      else if startswith s (py ''-Infinity'') then Inr (JFloat (py ''-Infinity''), drop 9 s)
      else match_number s)"

subsection \<open>Values\<close>

lemma scanstring_shorter: "scanstring s = Some (x, r) \<Longrightarrow> length r < length s"
proof (induction s arbitrary: x r rule: scanstring.induct)
  case 1
  then show ?case by simp
next
  case (2 c cs)
  then show ?case
    by (fastforce simp: cons_fst_def split: if_splits list.splits option.splits)
qed

lemma skip_ws_length: "length (skip_ws s) \<le> length s"
  by (simp add: skip_ws_def length_dropWhile_le)

lemma skip_ws_Cons_shorter:
  "skip_ws s = c # r \<Longrightarrow> length r < length s \<and> length (skip_ws r) < length s"
  using skip_ws_length [of s] skip_ws_length [of r] by simp

text \<open>
  \<open>scan_once\<close> at one position, with the array and the object loops. \<open>lim\<close> is the
  number of containers that may still be entered: the scanner enters the recursion at
  the opening bracket, before it reads what is inside, and raises \<open>RecursionError\<close>
  when none is left. \<open>parse_elems\<close> stands at the first value of a non-empty array,
  \<open>parse_members\<close> at the opening quote of a key; each returns what it read and the
  text after the closing bracket. The first error met from the left is the error of
  the whole. The test that a value consumed text is what the recursion descends on;
  it never fails.
\<close>

function parse_value :: "nat \<Rightarrow> pystr \<Rightarrow> error + (json \<times> pystr)"
  and parse_elems :: "nat \<Rightarrow> pystr \<Rightarrow> error + (json list \<times> pystr)"
  and parse_members :: "nat \<Rightarrow> pystr \<Rightarrow> error + ((pystr \<times> json) list \<times> pystr)"
where
  "parse_value lim s =
     (case s of
        [] \<Rightarrow> Inl JSONDecodeError
      | c # cs \<Rightarrow>
          if c = ord CHR 0x22 then
            (case scanstring cs of
               None \<Rightarrow> Inl JSONDecodeError
             | Some (str, r) \<Rightarrow> Inr (JString str, r))
          else if c = ord CHR ''{'' then
            (if lim = 0 then Inl RecursionError
             else case skip_ws cs of
                    [] \<Rightarrow> Inl JSONDecodeError
                  | d # r \<Rightarrow>
                      if d = ord CHR ''}'' then Inr (JObject [], r)
                      else (case parse_members (lim - 1) (skip_ws cs) of
                              Inl e \<Rightarrow> Inl e
                            | Inr (ps, r') \<Rightarrow> Inr (JObject (dict_of_pairs ps), r')))
          else if c = ord CHR ''['' then
            (if lim = 0 then Inl RecursionError
             else case skip_ws cs of
                    [] \<Rightarrow> Inl JSONDecodeError
                  | d # r \<Rightarrow>
                      if d = ord CHR '']'' then Inr (JArray [], r)
                      else (case parse_elems (lim - 1) (skip_ws cs) of
                              Inl e \<Rightarrow> Inl e
                            | Inr (vs, r') \<Rightarrow> Inr (JArray vs, r')))
          else match_literal s)"
| "parse_elems lim s =
     (case parse_value lim s of
        Inl e \<Rightarrow> Inl e
      | Inr (v, r) \<Rightarrow>
          if length r < length s then
            (case skip_ws r of
               [] \<Rightarrow> Inl JSONDecodeError
             | d # r' \<Rightarrow>
                 if d = ord CHR '']'' then Inr ([v], r')
                 else if d = ord CHR '','' then
                   (case parse_elems lim (skip_ws r') of
                      Inl e \<Rightarrow> Inl e
                    | Inr (vs, r'') \<Rightarrow> Inr (v # vs, r''))
                 else Inl JSONDecodeError)
          else Inl JSONDecodeError)"
| "parse_members lim s =
     (case s of
        [] \<Rightarrow> Inl JSONDecodeError
      | q # cs \<Rightarrow>
          if q \<noteq> ord CHR 0x22 then Inl JSONDecodeError
          else
            (case scanstring cs of
               None \<Rightarrow> Inl JSONDecodeError
             | Some (k, r) \<Rightarrow>
                 (case skip_ws r of
                    [] \<Rightarrow> Inl JSONDecodeError
                  | c # r' \<Rightarrow>
                      if c \<noteq> ord CHR '':'' then Inl JSONDecodeError
                      else
                        (case parse_value lim (skip_ws r') of
                           Inl e \<Rightarrow> Inl e
                         | Inr (v, r'') \<Rightarrow>
                             if length r'' < length (skip_ws r') then
                               (case skip_ws r'' of
                                  [] \<Rightarrow> Inl JSONDecodeError
                                | d # r3 \<Rightarrow>
                                    if d = ord CHR ''}'' then Inr ([(k, v)], r3)
                                    else if d = ord CHR '','' then
                                      (case parse_members lim (skip_ws r3) of
                                         Inl e \<Rightarrow> Inl e
                                       | Inr (kvs, r4) \<Rightarrow> Inr ((k, v) # kvs, r4))
                                    else Inl JSONDecodeError)
                             else Inl JSONDecodeError))))"
  by pat_completeness auto
termination
  apply (relation "measure (\<lambda>x. case x of
            Inl (lim, s) \<Rightarrow> 2 * length s
          | Inr (Inl (lim, s)) \<Rightarrow> 2 * length s + 1
          | Inr (Inr (lim, s)) \<Rightarrow> 2 * length s + 1)")
      apply (auto dest!: skip_ws_Cons_shorter scanstring_shorter)
  done

declare parse_value.simps [simp del] parse_elems.simps [simp del] parse_members.simps [simp del]

text \<open>
  \<open>json.loads\<close> of a \<open>str\<close>: a leading byte order mark is refused, whitespace may
  surround the one value, and anything after it is a \<open>JSONDecodeError\<close>.
\<close>

definition json_loads :: "nat \<Rightarrow> pystr \<Rightarrow> error + json" where
  "json_loads lim s =
     (if startswith s [65279] then Inl JSONDecodeError
      else case parse_value lim (skip_ws s) of
             Inl e \<Rightarrow> Inl e
           | Inr (v, r) \<Rightarrow> if skip_ws r = [] then Inr v else Inl JSONDecodeError)"

section \<open>json.dumps\<close>

fun digits :: "nat \<Rightarrow> pystr" where
  "digits n = (if n < 10 then [48 + n] else digits (n div 10) @ [48 + n mod 10])"

declare digits.simps [simp del]

definition str_int :: "int \<Rightarrow> pystr" where
  "str_int i = (if i < 0 then ord CHR ''-'' # digits (nat (- i)) else digits (nat i))"

definition hexdigit :: "nat \<Rightarrow> nat" where
  "hexdigit d = (if d < 10 then 48 + d else 87 + d)"

definition u_escape :: "nat \<Rightarrow> pystr" where
  "u_escape n =
     [92, ord CHR ''u'', hexdigit (n div 4096 mod 16), hexdigit (n div 256 mod 16),
      hexdigit (n div 16 mod 16), hexdigit (n mod 16)]"

text \<open>
  \<open>ensure_ascii\<close> is on: every character outside space .. tilde is escaped, one
  beyond the basic plane as a surrogate pair.
\<close>

definition escape_char :: "nat \<Rightarrow> pystr" where
  "escape_char c =
     (if c = 34 then [92, 34]
      else if c = 92 then [92, 92]
      else if c = 10 then [92, ord CHR ''n'']
      else if c = 13 then [92, ord CHR ''r'']
      else if c = 9 then [92, ord CHR ''t'']
      else if c = 8 then [92, ord CHR ''b'']
      else if c = 12 then [92, ord CHR ''f'']
      else if 32 \<le> c \<and> c \<le> 126 then [c]
      else if c < 65536 then u_escape c
      else u_escape (55296 + (c - 65536) div 1024 mod 1024)
           @ u_escape (56320 + (c - 65536) mod 1024))"

definition encode_basestring_ascii :: "pystr \<Rightarrow> pystr" where
  "encode_basestring_ascii s = 34 # concat (map escape_char s) @ [34]"

text \<open>
  The text \<open>json.dumps\<close> prints with its defaults: the separators are \<open>", "\<close> and
  \<open>": "\<close>.
\<close>

fun dumps_text :: "json \<Rightarrow> pystr"
  and dumps_items :: "json list \<Rightarrow> pystr"
  and dumps_pairs :: "(pystr \<times> json) list \<Rightarrow> pystr"
where
  "dumps_text JNull = py ''null''"
| "dumps_text (JBool b) = (if b then py ''true'' else py ''false'')"
| "dumps_text (JInt i) = str_int i"
| "dumps_text (JFloat lit) = lit"
| "dumps_text (JString s) = encode_basestring_ascii s"
| "dumps_text (JArray xs) =
     (if xs = [] then py ''[]'' else ord CHR ''['' # dumps_items xs @ py '']'')"
| "dumps_text (JObject kvs) =
     (if kvs = [] then py ''{}'' else ord CHR ''{'' # dumps_pairs kvs @ py ''}'')"
| "dumps_items [] = []"
| "dumps_items (x # xs) =
     dumps_text x @ (if xs = [] then [] else py '', '' @ dumps_items xs)"
| "dumps_pairs [] = []"
| "dumps_pairs ((k, v) # kvs) =
     encode_basestring_ascii k @ py '': '' @ dumps_text v
     @ (if kvs = [] then [] else py '', '' @ dumps_pairs kvs)"

text \<open>
  The text of \<open>json.dumps(obj, indent=2)\<close>: each item on a line of its own, indented
  by two spaces per level; the item separator is then \<open>","\<close>.
\<close>

definition newline_indent :: "nat \<Rightarrow> pystr" where
  "newline_indent level = 10 # replicate (2 * level) 32"

fun indent_text :: "nat \<Rightarrow> json \<Rightarrow> pystr"
  and items_indent :: "nat \<Rightarrow> json list \<Rightarrow> pystr"
  and pairs_indent :: "nat \<Rightarrow> (pystr \<times> json) list \<Rightarrow> pystr"
where
  "indent_text level (JArray xs) =
     (if xs = [] then py ''[]''
      else ord CHR ''['' # newline_indent (level + 1) @ items_indent (level + 1) xs
           @ newline_indent level @ py '']'')"
| "indent_text level (JObject kvs) =
     (if kvs = [] then py ''{}''
      else ord CHR ''{'' # newline_indent (level + 1) @ pairs_indent (level + 1) kvs
           @ newline_indent level @ py ''}'')"
| "indent_text level JNull = dumps_text JNull"
| "indent_text level (JBool b) = dumps_text (JBool b)"
| "indent_text level (JInt i) = dumps_text (JInt i)"
| "indent_text level (JFloat lit) = dumps_text (JFloat lit)"
| "indent_text level (JString s) = dumps_text (JString s)"
| "items_indent level [] = []"
| "items_indent level (x # xs) =
     indent_text level x
     @ (if xs = [] then [] else ord CHR '','' # newline_indent level @ items_indent level xs)"
| "pairs_indent level [] = []"
| "pairs_indent level ((k, v) # kvs) =
     encode_basestring_ascii k @ py '': '' @ indent_text level v
     @ (if kvs = [] then [] else ord CHR '','' # newline_indent level @ pairs_indent level kvs)"


text \<open>
  The exception of the encoder, if any: it walks the value in the order it prints,
  enters the recursion at every \<open>list\<close> and \<open>dict\<close> and raises \<open>RecursionError\<close> when
  \<open>lim\<close> containers are already open, and raises \<open>ValueError\<close> at an \<open>int\<close> whose
  text has more than \<open>max_str_digits\<close> digits.
\<close>

definition int_ok :: "int \<Rightarrow> bool" where
  "int_ok i = (length (digits (nat \<bar>i\<bar>)) \<le> max_str_digits)"

fun dumps_error :: "nat \<Rightarrow> json \<Rightarrow> error option"
  and items_error :: "nat \<Rightarrow> json list \<Rightarrow> error option"
  and pairs_error :: "nat \<Rightarrow> (pystr \<times> json) list \<Rightarrow> error option"
where
  "dumps_error lim (JInt i) = (if int_ok i then None else Some ValueError)"
| "dumps_error lim (JArray xs) =
     (if lim = 0 then Some RecursionError else items_error (lim - 1) xs)"
| "dumps_error lim (JObject kvs) =
     (if lim = 0 then Some RecursionError else pairs_error (lim - 1) kvs)"
| "dumps_error lim JNull = None"
| "dumps_error lim (JBool b) = None"
| "dumps_error lim (JFloat lit) = None"
| "dumps_error lim (JString s) = None"
| "items_error lim [] = None"
| "items_error lim (x # xs) =
     (case dumps_error lim x of Some e \<Rightarrow> Some e | None \<Rightarrow> items_error lim xs)"
| "pairs_error lim [] = None"
| "pairs_error lim ((k, v) # kvs) =
     (case dumps_error lim v of Some e \<Rightarrow> Some e | None \<Rightarrow> pairs_error lim kvs)"

definition json_dumps :: "nat \<Rightarrow> json \<Rightarrow> error + pystr" where
  "json_dumps lim v = (case dumps_error lim v of Some e \<Rightarrow> Inl e | None \<Rightarrow> Inr (dumps_text v))"

definition json_dumps_indent :: "nat \<Rightarrow> json \<Rightarrow> error + pystr" where
  "json_dumps_indent lim v =
     (case dumps_error lim v of Some e \<Rightarrow> Inl e | None \<Rightarrow> Inr (indent_text 0 v))"

section \<open>Regular expressions\<close>

text \<open>
  \<open>re.findall\<close> scans the text from the left: where the pattern matches, the groups
  of the match are recorded and the scan goes on after the match; where it does not,
  the scan moves one character on. \<open>m\<close> is the pattern as a function from the text at
  one position to the groups and the text after the match. None of the patterns
  below matches the empty string, so the branch for a match that consumes nothing is
  never taken.
\<close>

function findall :: "(pystr \<Rightarrow> ('g \<times> pystr) option) \<Rightarrow> pystr \<Rightarrow> 'g list" where
  "findall m s =
     (case m s of
        Some (g, rest) \<Rightarrow>
          g # (if length rest < length s then findall m rest
               else (case s of [] \<Rightarrow> [] | c # cs \<Rightarrow> findall m cs))
      | None \<Rightarrow> (case s of [] \<Rightarrow> [] | c # cs \<Rightarrow> findall m cs))"
  by pat_completeness auto
termination
  by (relation "measure (\<lambda>(m, s). length s)") auto

declare findall.simps [simp del]

text \<open>A literal piece of a pattern: the text after it, when the text starts with it.\<close>

definition match_lit :: "pystr \<Rightarrow> pystr \<Rightarrow> pystr option" where
  "match_lit p s = (if startswith s p then Some (drop (length p) s) else None)"

text \<open>
  The lazy group \<open>(.*?)\<close> under \<open>re.DOTALL\<close>, followed by the rest of the pattern
  \<open>close\<close>: the shortest prefix, of any characters, after which \<open>close\<close> matches.
\<close>

fun lazy_until :: "(pystr \<Rightarrow> pystr option) \<Rightarrow> pystr \<Rightarrow> (pystr \<times> pystr) option" where
  "lazy_until close [] = (case close [] of Some r \<Rightarrow> Some ([], r) | None \<Rightarrow> None)"
| "lazy_until close (c # cs) =
     (case close (c # cs) of
        Some r \<Rightarrow> Some ([], r)
      | None \<Rightarrow> cons_fst c (lazy_until close cs))"

text \<open>
  The greedy group \<open>([^c]+)\<close> followed by a literal that starts with \<open>c\<close>: the group
  is the longest run of characters other than \<open>c\<close>, it is not empty, and no shorter
  run can be followed by \<open>c\<close>.
\<close>

definition match_name :: "nat \<Rightarrow> pystr \<Rightarrow> pystr \<Rightarrow> (pystr \<times> pystr) option" where
  "match_name stop closing s =
     (let n = takeWhile (\<lambda>c. c \<noteq> stop) s
      in if n = [] then None
         else (case match_lit closing (dropWhile (\<lambda>c. c \<noteq> stop) s) of
                 None \<Rightarrow> None
               | Some r \<Rightarrow> Some (n, r)))"

text \<open>
  \<open>tool_call_pattern\<close>, \<^verbatim>\<open><tool_call>\s*(\{.*?\})\s*</tool_call>\<close>. The greedy
  \<open>\s*\<close> is followed by a character that is no whitespace, so it takes all the
  whitespace there is.
\<close>

definition tool_call_pattern :: "pystr \<Rightarrow> (pystr \<times> pystr) option" where
  \<open>tool_call_pattern s =
     (case match_lit (py ''<tool_call>'') s of
        None \<Rightarrow> None
      | Some s1 \<Rightarrow>
          (case match_lit (py ''{'') (dropWhile isspace s1) of
             None \<Rightarrow> None
           | Some s2 \<Rightarrow>
               (case lazy_until
                       (\<lambda>t. case match_lit (py ''}'') t of
                              None \<Rightarrow> None
                            | Some t' \<Rightarrow> match_lit (py ''</tool_call>'') (dropWhile isspace t'))
                       s2 of
                  None \<Rightarrow> None
                | Some (body, rest) \<Rightarrow> Some (py ''{'' @ body @ py ''}'', rest))))\<close>

text \<open>
  \<open>qwen_tool_call_pattern\<close>,
  \<^verbatim>\<open><tool_call>\s*<function=([^>]+)>(.*?)</function>\s*</tool_call>\<close>.
\<close>

definition qwen_tool_call_pattern :: "pystr \<Rightarrow> ((pystr \<times> pystr) \<times> pystr) option" where
  \<open>qwen_tool_call_pattern s =
     (case match_lit (py ''<tool_call>'') s of
        None \<Rightarrow> None
      | Some s1 \<Rightarrow>
          (case match_lit (py ''<function='') (dropWhile isspace s1) of
             None \<Rightarrow> None
           | Some s2 \<Rightarrow>
               (case match_name (ord CHR ''>'') (py ''>'') s2 of
                  None \<Rightarrow> None
                | Some (tool_name, s3) \<Rightarrow>
                    (case lazy_until
                            (\<lambda>t. case match_lit (py ''</function>'') t of
                                   None \<Rightarrow> None
                                 | Some t' \<Rightarrow>
                                     match_lit (py ''</tool_call>'') (dropWhile isspace t'))
                            s3 of
                       None \<Rightarrow> None
                     | Some (function_body, rest) \<Rightarrow> Some ((tool_name, function_body), rest)))))\<close>

text \<open>\<open>qwen_param_pattern\<close>, \<^verbatim>\<open><parameter=([^>]+)>(.*?)</parameter>\<close>.\<close>

definition qwen_param_pattern :: "pystr \<Rightarrow> ((pystr \<times> pystr) \<times> pystr) option" where
  \<open>qwen_param_pattern s =
     (case match_lit (py ''<parameter='') s of
        None \<Rightarrow> None
      | Some s1 \<Rightarrow>
          (case match_name (ord CHR ''>'') (py ''>'') s1 of
             None \<Rightarrow> None
           | Some (param_name, s2) \<Rightarrow>
               (case lazy_until (match_lit (py ''</parameter>'')) s2 of
                  None \<Rightarrow> None
                | Some (param_value, rest) \<Rightarrow> Some ((param_name, param_value), rest))))\<close>

text \<open>\<open>invoke_pattern\<close>, \<^verbatim>\<open><invoke name="([^"]+)">(.*?)</invoke>\<close>.\<close>

definition invoke_pattern :: "pystr \<Rightarrow> ((pystr \<times> pystr) \<times> pystr) option" where
  \<open>invoke_pattern s =
     (case match_lit (py ''<invoke name="'') s of
        None \<Rightarrow> None
      | Some s1 \<Rightarrow>
          (case match_name (ord CHR 0x22) (py ''">'') s1 of
             None \<Rightarrow> None
           | Some (tool_name, s2) \<Rightarrow>
               (case lazy_until (match_lit (py ''</invoke>'')) s2 of
                  None \<Rightarrow> None
                | Some (invoke_body, rest) \<Rightarrow> Some ((tool_name, invoke_body), rest))))\<close>

text \<open>\<open>param_pattern\<close>, \<^verbatim>\<open><parameter name="([^"]+)">(.*?)</parameter>\<close>.\<close>

definition param_pattern :: "pystr \<Rightarrow> ((pystr \<times> pystr) \<times> pystr) option" where
  \<open>param_pattern s =
     (case match_lit (py ''<parameter name="'') s of
        None \<Rightarrow> None
      | Some s1 \<Rightarrow>
          (case match_name (ord CHR 0x22) (py ''">'') s1 of
             None \<Rightarrow> None
           | Some (param_name, s2) \<Rightarrow>
               (case lazy_until (match_lit (py ''</parameter>'')) s2 of
                  None \<Rightarrow> None
                | Some (param_value, rest) \<Rightarrow> Some ((param_name, param_value), rest))))\<close>

section \<open>The tool call record\<close>

text \<open>
  The canonical record: \<open>tool_call.function.name\<close> and
  \<open>tool_call.function.arguments\<close> (the field \<open>function\<close> is written \<open>func\<close>). The
  fields hold whatever value the decoder put there: the class belongs to the schema
  layer, which is not part of the engine, and the engine itself checks no type.
\<close>

record Function =
  name :: json
  arguments :: json

record ToolCall =
  func :: Function

text \<open>
  Modelled from the spec: the constructor \<open>ToolCall(**kwargs)\<close> of the schema
  layer, which is not among the sources. The spec treats the record as an opaque value
  object with the required fields \<open>name\<close> and \<open>arguments\<close>, whose values are not
  validated here: a missing \<open>function\<close>, \<open>name\<close> or \<open>arguments\<close> is a missing-field
  failure, and the values given are stored as they are.
\<close>

definition ToolCall_new :: "(pystr \<times> json) list \<Rightarrow> error + ToolCall" where
  "ToolCall_new kwargs =
     (case dict_get kwargs (py ''function'') of
        Some (JObject f) \<Rightarrow>
          (case (dict_get f (py ''name''), dict_get f (py ''arguments'')) of
             (Some n, Some a) \<Rightarrow> Inr \<lparr>func = \<lparr>name = n, arguments = a\<rparr>\<rparr>
           | _ \<Rightarrow> Inl ValidationError)
      | _ \<Rightarrow> Inl ValidationError)"

text \<open>A loop over a list that stops at the first exception.\<close>

fun map_result :: "('a \<Rightarrow> error + 'b) \<Rightarrow> 'a list \<Rightarrow> error + 'b list" where
  "map_result f [] = Inr []"
| "map_result f (x # xs) =
     (case f x of
        Inl e \<Rightarrow> Inl e
      | Inr y \<Rightarrow> (case map_result f xs of Inl e \<Rightarrow> Inl e | Inr ys \<Rightarrow> Inr (y # ys)))"

text \<open>\<open>obj[key]\<close> with a string key: only a \<open>dict\<close> can be indexed so.\<close>

fun subscript :: "json \<Rightarrow> pystr \<Rightarrow> error + json" where
  "subscript (JObject d) k = (case dict_get d k of None \<Rightarrow> Inl KeyError | Some v \<Rightarrow> Inr v)"
| "subscript _ k = Inl TypeError"


text \<open>\<open>d.get(key, default)\<close>.\<close>

definition dict_get_or :: "(pystr \<times> json) list \<Rightarrow> pystr \<Rightarrow> json \<Rightarrow> json" where
  "dict_get_or d k dflt = (case dict_get d k of Some v \<Rightarrow> v | None \<Rightarrow> dflt)"

definition is_dict :: "json \<Rightarrow> bool" where
  "is_dict v = (case v of JObject d \<Rightarrow> True | _ \<Rightarrow> False)"

definition is_str :: "json \<Rightarrow> bool" where
  "is_str v = (case v of JString s \<Rightarrow> True | _ \<Rightarrow> False)"

section \<open>ToolCallProcessor.from_json\<close>

text \<open>
  The test for the single-object format:
  \<open>isinstance(parsed, dict) and "name" in parsed and "arguments" in parsed\<close>.
\<close>

definition is_qwen_format :: "json \<Rightarrow> bool" where
  "is_qwen_format parsed =
     (case parsed of
        JObject d \<Rightarrow> dict_get d (py ''name'') \<noteq> None \<and> dict_get d (py ''arguments'') \<noteq> None
      | _ \<Rightarrow> False)"

text \<open>
  The dictionary built for the single-object format: the arguments are serialized
  when they are a \<open>dict\<close> and taken as they are otherwise.
\<close>

definition qwen_to_standard :: "interpreter \<Rightarrow> json \<Rightarrow> error + (pystr \<times> json) list" where
  "qwen_to_standard env parsed =
     (case subscript parsed (py ''name'') of
        Inl e \<Rightarrow> Inl e
      | Inr n \<Rightarrow>
          (case subscript parsed (py ''arguments'') of
             Inl e \<Rightarrow> Inl e
           | Inr a \<Rightarrow>
               (case (if is_dict a
                      then (case json_dumps (dumps_depth env) a of
                              Inl e \<Rightarrow> Inl e
                            | Inr text \<Rightarrow> Inr (JString text))
                      else Inr a) of
                  Inl e \<Rightarrow> Inl e
                | Inr a' \<Rightarrow>
                    Inr [(py ''function'',
                          JObject [(py ''name'', n), (py ''arguments'', a')])])))"

text \<open>
  One round of the loop over the array format:
  \<open>tool_call["function"]["arguments"] = json.dumps(tool_call["function"]["arguments"])\<close>.
  The element is returned with its arguments replaced by their serialization.
\<close>

definition stringify_arguments :: "interpreter \<Rightarrow> json \<Rightarrow> error + json" where
  "stringify_arguments env tool_call =
     (case subscript tool_call (py ''function'') of
        Inl e \<Rightarrow> Inl e
      | Inr f \<Rightarrow>
          (case subscript f (py ''arguments'') of
             Inl e \<Rightarrow> Inl e
           | Inr a \<Rightarrow>
               (case json_dumps (dumps_depth env) a of
                  Inl e \<Rightarrow> Inl e
                | Inr text \<Rightarrow>
                    (case (tool_call, f) of
                       (JObject tc, JObject fd) \<Rightarrow>
                         Inr (JObject (dict_set tc (py ''function'')
                                (JObject (dict_set fd (py ''arguments'') (JString text)))))
                     | _ \<Rightarrow> Inl TypeError))))"

text \<open>\<open>ToolCall(**tool_call)\<close>: the keyword arguments are the items of a \<open>dict\<close>.\<close>

definition ToolCall_kwargs :: "json \<Rightarrow> error + ToolCall" where
  "ToolCall_kwargs tool_call =
     (case tool_call of JObject kwargs \<Rightarrow> ToolCall_new kwargs | _ \<Rightarrow> Inl TypeError)"

definition from_json :: "interpreter \<Rightarrow> pystr \<Rightarrow> error + ToolCall list" where
  "from_json env tool_calls_str =
     (case json_loads (loads_depth env) tool_calls_str of
        Inl e \<Rightarrow> Inl e
      | Inr parsed \<Rightarrow>
          if is_qwen_format parsed then
            (case qwen_to_standard env parsed of
               Inl e \<Rightarrow> Inl e
             | Inr tool_call_dict \<Rightarrow>
                 (case ToolCall_new tool_call_dict of
                    Inl e \<Rightarrow> Inl e
                  | Inr tc \<Rightarrow> Inr [tc]))
          else
            (let tool_calls = (case parsed of JArray xs \<Rightarrow> xs | _ \<Rightarrow> [parsed])
             in case map_result (stringify_arguments env) tool_calls of
                  Inl e \<Rightarrow> Inl e
                | Inr tool_calls' \<Rightarrow> map_result ToolCall_kwargs tool_calls'))"

section \<open>ToolCallProcessor.from_xml\<close>

text \<open>
  The body of the \<open>try\<close> for one block of the embedded-JSON format: the payload is
  parsed, the arguments are serialized unless they are a string, and the record is
  built.
\<close>

definition tool_call_try :: "interpreter \<Rightarrow> pystr \<Rightarrow> error + ToolCall" where
  "tool_call_try env json_str =
     (case json_loads (loads_depth env) json_str of
        Inl e \<Rightarrow> Inl e
      | Inr tool_data \<Rightarrow>
          (case tool_data of
             JObject d \<Rightarrow>
               (case (if \<not> is_str (dict_get_or d (py ''arguments'') JNull)
                      then (case json_dumps (dumps_depth env)
                                   (dict_get_or d (py ''arguments'') (JObject [])) of
                              Inl e \<Rightarrow> Inl e
                            | Inr text \<Rightarrow> Inr (JString text))
                      else Inr (dict_get_or d (py ''arguments'') JNull)) of
                  Inl e \<Rightarrow> Inl e
                | Inr a \<Rightarrow>
                    ToolCall_new
                      [(py ''function'',
                        JObject [(py ''name'', dict_get_or d (py ''name'') JNull),
                                 (py ''arguments'', a)])])
           | _ \<Rightarrow> Inl AttributeError))"

text \<open>
  One block with its \<open>except json.JSONDecodeError\<close>: that error is caught and the
  block gives nothing (\<open>Inr None\<close>; the warning is not modelled); any other exception
  leaves the function.
\<close>

definition tool_call_block :: "interpreter \<Rightarrow> pystr \<Rightarrow> error + ToolCall option" where
  "tool_call_block env json_str =
     (case tool_call_try env json_str of
        Inl e \<Rightarrow> if e = JSONDecodeError then Inr None else Inl e
      | Inr tc \<Rightarrow> Inr (Some tc))"

text \<open>
  A parameter value: stripped, then parsed as JSON, and kept as the stripped string
  when the parser raises \<open>JSONDecodeError\<close>; no other exception is caught.
\<close>

definition param_value_of :: "interpreter \<Rightarrow> pystr \<Rightarrow> error + json" where
  "param_value_of env param_value =
     (case json_loads (loads_depth env) (strip param_value) of
        Inr parsed_value \<Rightarrow> Inr parsed_value
      | Inl e \<Rightarrow> if e = JSONDecodeError then Inr (JString (strip param_value)) else Inl e)"

text \<open>
  The loop \<open>parameters[param_name] = ...\<close> over the parameters of one block, from the
  dictionary built so far.
\<close>

fun parameters_loop ::
  "interpreter \<Rightarrow> (pystr \<times> json) list \<Rightarrow> (pystr \<times> pystr) list \<Rightarrow> error + (pystr \<times> json) list"
where
  "parameters_loop env parameters [] = Inr parameters"
| "parameters_loop env parameters ((param_name, param_value) # params) =
     (case param_value_of env param_value of
        Inl e \<Rightarrow> Inl e
      | Inr v \<Rightarrow> parameters_loop env (dict_set parameters param_name v) params)"

definition parameters_of :: "interpreter \<Rightarrow> (pystr \<times> pystr) list \<Rightarrow> error + (pystr \<times> json) list" where
  "parameters_of env params = parameters_loop env [] params"

text \<open>
  One block of the tagged-function or of the invoke format; \<open>pat\<close> is the pattern of
  its parameters.
\<close>

definition function_block ::
  "interpreter \<Rightarrow> (pystr \<Rightarrow> ((pystr \<times> pystr) \<times> pystr) option) \<Rightarrow> pystr \<times> pystr
     \<Rightarrow> error + ToolCall" where
  "function_block env pat m =
     (case m of
        (tool_name, body) \<Rightarrow>
          (case parameters_of env (findall pat body) of
             Inl e \<Rightarrow> Inl e
           | Inr parameters \<Rightarrow>
               (case json_dumps (dumps_depth env) (JObject parameters) of
                  Inl e \<Rightarrow> Inl e
                | Inr text \<Rightarrow>
                    ToolCall_new
                      [(py ''function'',
                        JObject [(py ''name'', JString tool_name),
                                 (py ''arguments'', JString text)])])))"

definition from_xml :: "interpreter \<Rightarrow> pystr \<Rightarrow> error + ToolCall list" where
  "from_xml env tool_calls_str =
     (let tool_call_matches = findall tool_call_pattern tool_calls_str
      in if tool_call_matches \<noteq> [] then
           (case map_result (tool_call_block env) tool_call_matches of
              Inl e \<Rightarrow> Inl e
            | Inr rs \<Rightarrow> Inr (concat (map (case_option [] (\<lambda>tc. [tc])) rs)))
         else
           (let qwen_matches = findall qwen_tool_call_pattern tool_calls_str
            in if qwen_matches \<noteq> [] then
                 map_result (function_block env qwen_param_pattern) qwen_matches
               else
                 map_result (function_block env param_pattern)
                   (findall invoke_pattern tool_calls_str)))"

section \<open>ToolCallProcessor.dump, to_json and to_xml\<close>

text \<open>
  Modelled from the spec: \<open>model_dump\<close> of the schema layer, which is not among the
  sources. It gives the record as a plain key-value mapping.
\<close>

definition model_dump :: "ToolCall \<Rightarrow> error + json" where
  "model_dump tc =
     Inr (JObject [(py ''function'',
                    JObject [(py ''name'', name (func tc)),
                             (py ''arguments'', arguments (func tc))])])"

text \<open>
  \<open>dump\<close>: a \<open>JSONDecodeError\<close> or an \<open>AttributeError\<close> on one record is caught and
  the record is left out.
\<close>

fun dump :: "ToolCall list \<Rightarrow> error + json list" where
  "dump [] = Inr []"
| "dump (tool_call_obj # rest) =
     (case model_dump tool_call_obj of
        Inl e \<Rightarrow> if e = JSONDecodeError \<or> e = AttributeError then dump rest else Inl e
      | Inr d \<Rightarrow> (case dump rest of Inl e \<Rightarrow> Inl e | Inr ds \<Rightarrow> Inr (d # ds)))"

definition to_json :: "interpreter \<Rightarrow> ToolCall list \<Rightarrow> error + pystr" where
  "to_json env tool_calls =
     (if tool_calls = [] then Inr []
      else case dump tool_calls of
             Inl e \<Rightarrow> Inl e
           | Inr dumped_tool_calls \<Rightarrow>
               json_dumps_indent (indent_depth env) (JArray dumped_tool_calls))"

text \<open>\<open>sep.join(parts)\<close>.\<close>

fun join :: "pystr \<Rightarrow> pystr list \<Rightarrow> pystr" where
  "join sep [] = []"
| "join sep (x # xs) = x @ (if xs = [] then [] else sep @ join sep xs)"

text \<open>
  A field \<open>{v}\<close> of an f-string: a \<open>str\<close> is inserted as it is. For any other value
  the interpreter's \<open>str()\<close> of it is inserted; that function is the parameter
  \<open>str_of\<close> of the model.
\<close>

definition fstring :: "(json \<Rightarrow> pystr) \<Rightarrow> json \<Rightarrow> pystr" where
  "fstring str_of v = (case v of JString s \<Rightarrow> s | _ \<Rightarrow> str_of v)"

text \<open>A parameter value as text: a string as it is, any other value serialized.\<close>

definition value_str :: "interpreter \<Rightarrow> json \<Rightarrow> error + pystr" where
  "value_str env param_value =
     (case param_value of
        JString s \<Rightarrow> Inr s
      | _ \<Rightarrow> json_dumps (dumps_depth env) param_value)"

text \<open>
  The lines of one block, from the name as text and the items with their values as
  text.
\<close>

definition qwen_lines :: "pystr \<Rightarrow> (pystr \<times> pystr) list \<Rightarrow> pystr list" where
  \<open>qwen_lines tool_name items =
     [py ''<tool_call>'', py ''<function='' @ tool_name @ py ''>'']
     @ concat (map (\<lambda>(param_name, value_str).
                      [py ''<parameter='' @ param_name @ py ''>'',
                       value_str,
                       py ''</parameter>'']) items)
     @ [py ''</function>'', py ''</tool_call>'']\<close>

definition invoke_lines :: "pystr \<Rightarrow> (pystr \<times> pystr) list \<Rightarrow> pystr list" where
  \<open>invoke_lines tool_name items =
     [py ''<invoke name="'' @ tool_name @ py ''">'']
     @ map (\<lambda>(param_name, value_str).
              py ''<parameter name="'' @ param_name @ py ''">'' @ value_str
              @ py ''</parameter>'') items
     @ [py ''</invoke>'']\<close>

text \<open>The loop over \<open>arguments.items()\<close>: each value as text, in order.\<close>

definition items_text :: "interpreter \<Rightarrow> (pystr \<times> json) list \<Rightarrow> error + (pystr \<times> pystr) list" where
  "items_text env items =
     map_result (\<lambda>(param_name, param_value).
        case value_str env param_value of
          Inl e \<Rightarrow> Inl e
        | Inr text \<Rightarrow> Inr (param_name, text)) items"

text \<open>
  The body of the \<open>try\<close> for one record of \<open>to_xml\<close>. \<open>json.loads\<close> of arguments
  that are no \<open>str\<close> is a \<open>TypeError\<close>, and \<open>arguments.items()\<close> on a value that is no
  \<open>dict\<close> an \<open>AttributeError\<close>.
\<close>

definition xml_try :: "interpreter \<Rightarrow> (json \<Rightarrow> pystr) \<Rightarrow> pystr \<Rightarrow> ToolCall \<Rightarrow> error + pystr" where
  "xml_try env str_of format tool_call_obj =
     (case arguments (func tool_call_obj) of
        JString text \<Rightarrow>
          (case json_loads (loads_depth env) text of
             Inl e \<Rightarrow> Inl e
           | Inr (JObject items) \<Rightarrow>
               (case items_text env items of
                  Inl e \<Rightarrow> Inl e
                | Inr texts \<Rightarrow>
                    if format = py ''qwen''
                    then Inr (join [10]
                           (qwen_lines (fstring str_of (name (func tool_call_obj))) texts))
                    else Inr (join [10]
                           (invoke_lines (fstring str_of (name (func tool_call_obj))) texts)))
           | Inr _ \<Rightarrow> Inl AttributeError)
      | _ \<Rightarrow> Inl TypeError)"

text \<open>
  One record with its \<open>except (json.JSONDecodeError, AttributeError)\<close>: those two are
  caught and the record gives no part (\<open>Inr None\<close>); any other exception leaves the
  function.
\<close>

definition xml_part ::
  "interpreter \<Rightarrow> (json \<Rightarrow> pystr) \<Rightarrow> pystr \<Rightarrow> ToolCall \<Rightarrow> error + pystr option" where
  "xml_part env str_of format tool_call_obj =
     (case xml_try env str_of format tool_call_obj of
        Inl e \<Rightarrow> if e = JSONDecodeError \<or> e = AttributeError then Inr None else Inl e
      | Inr part \<Rightarrow> Inr (Some part))"

definition to_xml ::
  "interpreter \<Rightarrow> (json \<Rightarrow> pystr) \<Rightarrow> ToolCall list \<Rightarrow> pystr \<Rightarrow> error + pystr" where
  "to_xml env str_of tool_calls format =
     (if tool_calls = [] then Inr []
      else case map_result (xml_part env str_of format) tool_calls of
             Inl e \<Rightarrow> Inl e
           | Inr xml_parts \<Rightarrow> Inr (join [10] (concat (map (case_option [] (\<lambda>p. [p])) xml_parts))))"

section \<open>Evaluation on concrete inputs\<close>

text \<open>The defining equations the simplifier unfolds to run the model on a given text.\<close>

lemmas json_eval = json_loads_def py_def startswith_def skip_ws_def is_ws_def cons_fst_def
  match_literal_def match_number_def match_minus_def match_integer_def match_frac_def
  match_exp_def match_sign_def is_digit_def nat_of_digits_def dict_of_pairs_def backslash_def
  max_str_digits_def parse_value.simps parse_elems.simps parse_members.simps

lemmas dumps_eval = json_dumps_def json_dumps_indent_def int_ok_def max_str_digits_def
  str_int_def encode_basestring_ascii_def escape_char_def u_escape_def hexdigit_def digits.simps
  newline_indent_def

lemmas re_eval = py_def startswith_def cons_fst_def findall.simps match_lit_def match_name_def
  tool_call_pattern_def qwen_tool_call_pattern_def qwen_param_pattern_def invoke_pattern_def
  param_pattern_def isspace_def strip_def

lemmas tc_eval = ToolCall_new_def dict_get_or_def is_dict_def is_str_def is_qwen_format_def
  qwen_to_standard_def stringify_arguments_def ToolCall_kwargs_def from_json_def
  tool_call_try_def tool_call_block_def param_value_of_def parameters_of_def
  function_block_def from_xml_def model_dump_def to_json_def fstring_def value_str_def
  qwen_lines_def invoke_lines_def items_text_def xml_try_def xml_part_def to_xml_def

text \<open>
  The depths of an interpreter with the default recursion limit of 1000, at a call
  from the top level, for the concrete inputs.
\<close>

definition env0 :: interpreter where
  "env0 = \<lparr>loads_depth = 993, dumps_depth = 993, indent_depth = 994\<rparr>"

section \<open>Loops that stop at the first exception\<close>

lemma map_result_Inr_iff:
  "(\<exists>ys. map_result f xs = Inr ys) \<longleftrightarrow> (\<forall>x \<in> set xs. \<exists>y. f x = Inr y)"
  by (induction xs) (auto split: sum.splits)

lemma map_result_Inr_map:
  "map_result f xs = Inr ys \<Longrightarrow> list_all2 (\<lambda>x y. f x = Inr y) xs ys"
  by (induction xs arbitrary: ys) (auto split: sum.splits)

lemma map_result_total:
  "(\<And>x. x \<in> set xs \<Longrightarrow> f x = Inr (g x)) \<Longrightarrow> map_result f xs = Inr (map g xs)"
  by (induction xs) auto

lemma map_result_fails:
  "x \<in> set xs \<Longrightarrow> f x = Inl e \<Longrightarrow> \<exists>e'. map_result f xs = Inl e'"
  by (induction xs) (auto split: sum.splits)

section \<open>What json.loads returns and raises\<close>

lemma parse_value_string:
  "parse_value lim (34 # cs) =
     (case scanstring cs of None \<Rightarrow> Inl JSONDecodeError | Some (str, r) \<Rightarrow> Inr (JString str, r))"
  by (subst parse_value.simps) simp

lemma parse_value_literal:
  "c \<notin> {34, 123, 91} \<Longrightarrow> parse_value lim (c # cs) = match_literal (c # cs)"
  by (subst parse_value.simps) simp

lemma parse_value_object:
  "parse_value lim (123 # cs) =
     (if lim = 0 then Inl RecursionError
      else case skip_ws cs of
             [] \<Rightarrow> Inl JSONDecodeError
           | d # r \<Rightarrow>
               if d = 125 then Inr (JObject [], r)
               else (case parse_members (lim - 1) (skip_ws cs) of
                       Inl e \<Rightarrow> Inl e
                     | Inr (ps, r') \<Rightarrow> Inr (JObject (dict_of_pairs ps), r')))"
  by (subst parse_value.simps) (simp split: list.splits)

lemma parse_value_array:
  "parse_value lim (91 # cs) =
     (if lim = 0 then Inl RecursionError
      else case skip_ws cs of
             [] \<Rightarrow> Inl JSONDecodeError
           | d # r \<Rightarrow>
               if d = 93 then Inr (JArray [], r)
               else (case parse_elems (lim - 1) (skip_ws cs) of
                       Inl e \<Rightarrow> Inl e
                     | Inr (vs, r') \<Rightarrow> Inr (JArray vs, r')))"
  by (subst parse_value.simps) (simp split: list.splits)

lemma parse_elems_step:
  assumes "parse_value lim s = Inr (v, r)" "length r < length s" "skip_ws r = d # r'"
  shows "parse_elems lim s =
     (if d = 93 then Inr ([v], r')
      else if d = 44 then
        (case parse_elems lim (skip_ws r') of
           Inl e \<Rightarrow> Inl e
         | Inr (vs, r'') \<Rightarrow> Inr (v # vs, r''))
      else Inl JSONDecodeError)"
  using assms by (subst parse_elems.simps) simp

lemma parse_members_step:
  assumes "scanstring cs = Some (k, r)" "skip_ws r = 58 # r'"
    "parse_value lim (skip_ws r') = Inr (v, r'')" "length r'' < length (skip_ws r')"
    "skip_ws r'' = d # r3"
  shows "parse_members lim (34 # cs) =
     (if d = 125 then Inr ([(k, v)], r3)
      else if d = 44 then
        (case parse_members lim (skip_ws r3) of
           Inl e \<Rightarrow> Inl e
         | Inr (kvs, r4) \<Rightarrow> Inr ((k, v) # kvs, r4))
      else Inl JSONDecodeError)"
  using assms by (subst parse_members.simps) simp

text \<open>
  What holds of every value the scanner returns and of every error it raises, from
  what holds of strings, of the literals, and of containers whose items have it.
\<close>

lemma parse_results:
  assumes str: "\<And>lim str. P lim (JString str)"
    and lit: "\<And>lim s v r. match_literal s = Inr (v, r) \<Longrightarrow> P lim v"
    and arr: "\<And>lim vs. lim \<noteq> 0 \<Longrightarrow> list_all (P (lim - 1)) vs \<Longrightarrow> P lim (JArray vs)"
    and obj: "\<And>lim ps. lim \<noteq> 0 \<Longrightarrow> list_all (\<lambda>(k, v). P (lim - 1) v) ps
                \<Longrightarrow> P lim (JObject (dict_of_pairs ps))"
    and err: "E JSONDecodeError" "E RecursionError" "\<And>s e. match_literal s = Inl e \<Longrightarrow> E e"
  shows "case parse_value lim s of Inr (v, r) \<Rightarrow> P lim v | Inl e \<Rightarrow> E e"
    and "case parse_elems lim1 s1 of Inr (vs, r) \<Rightarrow> list_all (P lim1) vs | Inl e \<Rightarrow> E e"
    and "case parse_members lim2 s2 of
           Inr (ps, r) \<Rightarrow> list_all (\<lambda>(k, v). P lim2 v) ps | Inl e \<Rightarrow> E e"
proof (induction lim s and lim1 s1 and lim2 s2 rule: parse_value_parse_elems_parse_members.induct)
  case (1 lim s)
  show ?case
  proof (cases s)
    case Nil
    then show ?thesis by (subst parse_value.simps) (simp add: err)
  next
    case (Cons c cs)
    consider (str) "c = 34" | (obj) "c = 123" | (arr) "c = 91" | (lit) "c \<notin> {34, 123, 91}"
      by auto
    then show ?thesis
    proof cases
      case str
      then show ?thesis
        using assms(1) by (simp add: Cons parse_value_string err split: option.splits)
    next
      case obj
      show ?thesis
      proof (cases "lim = 0 \<or> skip_ws cs = [] \<or> hd (skip_ws cs) = 125")
        case True
        then show ?thesis
          using assms(4) [of lim "[]"]
          by (auto simp: Cons obj parse_value_object err dict_of_pairs_def split: list.splits)
      next
        case False
        then obtain d t where sk: "skip_ws cs = d # t" and d: "d \<noteq> 125" and l: "lim \<noteq> 0"
          by (cases "skip_ws cs") auto
        have "case parse_members (lim - 1) (skip_ws cs) of
                Inr (ps, r) \<Rightarrow> list_all (\<lambda>(k, v). P (lim - 1) v) ps | Inl e \<Rightarrow> E e"
          by (rule 1(1) [OF Cons _ _ l sk]) (use obj d in simp_all)
        then show ?thesis
          using assms(4) [OF l] l d
          by (auto simp: Cons obj parse_value_object sk split: sum.splits)
      qed
    next
      case arr
      show ?thesis
      proof (cases "lim = 0 \<or> skip_ws cs = [] \<or> hd (skip_ws cs) = 93")
        case True
        then show ?thesis
          using assms(3) [of lim "[]"]
          by (auto simp: Cons arr parse_value_array err split: list.splits)
      next
        case False
        then obtain d t where sk: "skip_ws cs = d # t" and d: "d \<noteq> 93" and l: "lim \<noteq> 0"
          by (cases "skip_ws cs") auto
        have "case parse_elems (lim - 1) (skip_ws cs) of
                Inr (vs, r) \<Rightarrow> list_all (P (lim - 1)) vs | Inl e \<Rightarrow> E e"
          by (rule 1(2) [OF Cons _ _ _ l sk]) (use arr d in simp_all)
        then show ?thesis
          using assms(3) [OF l] l d
          by (auto simp: Cons arr parse_value_array sk split: sum.splits)
      qed
    next
      case lit
      then show ?thesis
        using assms(2) [of s _ _ lim] err(3) [of s]
        by (auto simp: Cons parse_value_literal split: sum.splits)
    qed
  qed
next
  case (2 lim s)
  show ?case
  proof (cases "parse_value lim s")
    case (Inl e)
    with 2(1) show ?thesis by (subst parse_elems.simps) simp
  next
    case (Inr b)
    obtain v r0 where b: "b = (v, r0)" by (cases b)
    note pv = Inr [unfolded b]
    from 2(1) pv have pv': "P lim v" by simp
    show ?thesis
    proof (cases "length r0 < length s")
      case False
      with pv show ?thesis by (subst parse_elems.simps) (simp add: err)
    next
      case len: True
      show ?thesis
      proof (cases "skip_ws r0")
        case Nil
        with pv len show ?thesis by (subst parse_elems.simps) (simp add: err)
      next
        case sk: (Cons d r')
        show ?thesis
        proof (cases "d = 44")
          case False
          then show ?thesis
            unfolding parse_elems_step [OF pv len sk] by (simp add: pv' err)
        next
          case True
          have "case parse_elems lim (skip_ws r') of
                  Inr (vs, r) \<Rightarrow> list_all (P lim) vs | Inl e \<Rightarrow> E e"
            by (rule 2(2) [OF pv _ len sk]) (use True in simp_all)
          then show ?thesis
            unfolding parse_elems_step [OF pv len sk]
            by (auto simp: True pv' split: sum.splits)
        qed
      qed
    qed
  qed
next
  case (3 lim s)
  show ?case
  proof (cases "\<exists>cs k r0 r1. s = 34 # cs \<and> scanstring cs = Some (k, r0) \<and> skip_ws r0 = 58 # r1")
    case False
    then show ?thesis
      by (subst parse_members.simps) (auto simp: err split: list.splits option.splits)
  next
    case True
    then obtain cs k r0 r1 where s: "s = 34 # cs" and sc: "scanstring cs = Some (k, r0)"
      and sk1: "skip_ws r0 = 58 # r1" by blast
    have ih: "case parse_value lim (skip_ws r1) of Inr (v, r) \<Rightarrow> P lim v | Inl e \<Rightarrow> E e"
      by (rule 3(1) [OF _ _ sc _ sk1]) (use s in simp_all)
    show ?thesis
    proof (cases "parse_value lim (skip_ws r1)")
      case (Inl e)
      with ih show ?thesis
        by (subst parse_members.simps) (simp add: s sc sk1)
    next
      case (Inr b)
      obtain v r2 where b: "b = (v, r2)" by (cases b)
      note pv = Inr [unfolded b]
      from ih pv have pv': "P lim v" by simp
      show ?thesis
      proof (cases "length r2 < length (skip_ws r1)")
        case False
        with pv show ?thesis
          by (subst parse_members.simps) (simp add: s sc sk1 err)
      next
        case len: True
        show ?thesis
        proof (cases "skip_ws r2")
          case Nil
          with pv len show ?thesis
            by (subst parse_members.simps) (simp add: s sc sk1 err)
        next
          case sk: (Cons d r3)
          note step = parse_members_step [OF sc sk1 pv len sk]
          show ?thesis
          proof (cases "d = 44")
            case False
            then show ?thesis
              unfolding s step by (simp add: pv' err)
          next
            case True
            have "case parse_members lim (skip_ws r3) of
                    Inr (ps, r) \<Rightarrow> list_all (\<lambda>(k, v). P lim v) ps | Inl e \<Rightarrow> E e"
              by (rule 3(2) [OF _ _ sc _ sk1 _ pv _ len sk]) (use s True in simp_all)
            then show ?thesis
              unfolding s step by (auto simp: True pv' split: sum.splits)
          qed
        qed
      qed
    qed
  qed
qed

lemma match_number_error: "match_number s = Inl e \<Longrightarrow> e = JSONDecodeError \<or> e = ValueError"
  by (auto simp: match_number_def Let_def split: prod.splits option.splits if_splits)

lemma match_literal_error: "match_literal s = Inl e \<Longrightarrow> e = JSONDecodeError \<or> e = ValueError"
  by (auto simp: match_literal_def dest: match_number_error split: if_splits)

text \<open>\<open>json.loads\<close> raises no other exception than these three.\<close>

lemma json_loads_error:
  "json_loads lim s = Inl e \<Longrightarrow> e = JSONDecodeError \<or> e = ValueError \<or> e = RecursionError"
  using parse_results(1) [of "\<lambda>lim v. True"
      "\<lambda>e. e = JSONDecodeError \<or> e = ValueError \<or> e = RecursionError" lim "skip_ws s"]
    match_literal_error
  by (auto simp: json_loads_def split: if_splits sum.splits)

lemma parse_value_brace: "parse_value lim (123 # cs) = Inr (v, r) \<Longrightarrow> is_dict v"
  by (auto simp: parse_value_object is_dict_def split: list.splits if_splits sum.splits)

lemma json_loads_brace: "json_loads lim (123 # cs) = Inr v \<Longrightarrow> is_dict v"
  by (auto simp: json_loads_def skip_ws_def is_ws_def dest: parse_value_brace
      split: if_splits sum.splits)

subsection \<open>A value that was read can be written\<close>

lemma dumps_error_mono:
  "dumps_error lim v = None \<Longrightarrow> lim \<le> lim' \<Longrightarrow> dumps_error lim' v = None"
  "items_error lim1 vs = None \<Longrightarrow> lim1 \<le> lim1' \<Longrightarrow> items_error lim1' vs = None"
  "pairs_error lim2 kvs = None \<Longrightarrow> lim2 \<le> lim2' \<Longrightarrow> pairs_error lim2' kvs = None"
proof (induction lim v and lim1 vs and lim2 kvs arbitrary: lim' and lim1' and lim2'
    rule: dumps_error_items_error_pairs_error.induct)
  case (2 lim xs)
  then show ?case by (cases "lim = 0") (auto intro: 2(1) [of "lim' - 1"])
next
  case (3 lim kvs)
  then show ?case by (cases "lim = 0") (auto intro: 3(1) [of "lim' - 1"])
qed (auto split: option.splits)

lemma items_error_all: "items_error lim vs = None \<longleftrightarrow> list_all (\<lambda>v. dumps_error lim v = None) vs"
  by (induction vs) (auto split: option.splits)

lemma pairs_error_all:
  "pairs_error lim kvs = None \<longleftrightarrow> list_all (\<lambda>(k, v). dumps_error lim v = None) kvs"
  by (induction kvs) (auto split: option.splits)

lemma pairs_error_dict_set:
  "pairs_error lim d = None \<Longrightarrow> dumps_error lim v = None \<Longrightarrow>
   pairs_error lim (dict_set d k v) = None"
  by (induction d) (auto split: option.splits)

lemma pairs_error_foldl:
  "pairs_error lim d = None \<Longrightarrow> pairs_error lim ps = None \<Longrightarrow>
   pairs_error lim (foldl (\<lambda>d (k, v). dict_set d k v) d ps) = None"
  by (induction ps arbitrary: d) (auto simp: pairs_error_dict_set split: option.splits)

lemma pairs_error_dict_of_pairs:
  "pairs_error lim ps = None \<Longrightarrow> pairs_error lim (dict_of_pairs ps) = None"
  by (simp add: dict_of_pairs_def pairs_error_foldl)

lemma pairs_error_dict_get:
  "pairs_error lim d = None \<Longrightarrow> dict_get d k = Some v \<Longrightarrow> dumps_error lim v = None"
  by (induction d) (auto split: option.splits if_splits)

lemma length_digits_le: "n < 10 ^ k \<Longrightarrow> 0 < k \<Longrightarrow> length (digits n) \<le> k"
proof (induction n arbitrary: k rule: digits.induct)
  case (1 n)
  show ?case
  proof (cases "n < 10")
    case True
    with 1(3) show ?thesis by (subst digits.simps) simp
  next
    case False
    obtain j where k: "k = Suc j" using 1(3) by (cases k) auto
    from False 1(2) have j: "0 < j" by (cases j) (auto simp: k)
    from 1(2) have "n div 10 < 10 ^ j" by (simp add: k less_mult_imp_div_less)
    from 1(1) [OF False this j] False show ?thesis
      by (subst digits.simps) (simp add: k)
  qed
qed

lemma nat_of_digits_snoc: "nat_of_digits (xs @ [d]) = 10 * nat_of_digits xs + (d - 48)"
  by (simp add: nat_of_digits_def)

lemma nat_of_digits_less:
  "\<forall>c \<in> set ds. is_digit c \<Longrightarrow> nat_of_digits ds < 10 ^ length ds"
proof (induction ds rule: rev_induct)
  case Nil
  then show ?case by (simp add: nat_of_digits_def)
next
  case (snoc d ds)
  then have "nat_of_digits ds < 10 ^ length ds" and "d - 48 \<le> 9"
    by (auto simp: is_digit_def)
  then show ?case by (simp add: nat_of_digits_snoc)
qed

lemma match_integer_digits_only:
  "match_integer s = Some (ip, r) \<Longrightarrow> ip \<noteq> [] \<and> (\<forall>c \<in> set ip. is_digit c)"
proof -
  have "is_digit 48" by (simp add: is_digit_def)
  then show "match_integer s = Some (ip, r) \<Longrightarrow> ip \<noteq> [] \<and> (\<forall>c \<in> set ip. is_digit c)"
    by (auto simp: match_integer_def split: list.splits if_splits dest: set_takeWhileD)
qed

lemma match_integer_int_ok:
  assumes "match_integer s = Some (ip, r)" "length ip \<le> max_str_digits"
  shows "int_ok (int (nat_of_digits ip))" "int_ok (- int (nat_of_digits ip))"
proof -
  from match_integer_digits_only [OF assms(1)]
  have "nat_of_digits ip < 10 ^ length ip" "0 < length ip"
    by (auto intro: nat_of_digits_less)
  then have "length (digits (nat_of_digits ip)) \<le> length ip"
    by (rule length_digits_le)
  with assms(2) show "int_ok (int (nat_of_digits ip))" "int_ok (- int (nat_of_digits ip))"
    by (simp_all add: int_ok_def)
qed

lemma match_number_encodable: "match_number s = Inr (v, r) \<Longrightarrow> dumps_error lim v = None"
  by (auto simp: match_number_def Let_def dest: match_integer_int_ok
      split: prod.splits option.splits if_splits)

lemma match_literal_encodable: "match_literal s = Inr (v, r) \<Longrightarrow> dumps_error lim v = None"
  by (auto simp: match_literal_def dest: match_number_encodable split: if_splits)

text \<open>
  A value that \<open>json.loads\<close> returned within \<open>lim\<close> levels is one that \<open>json.dumps\<close>
  writes within \<open>lim\<close> levels: it nests no deeper, and its integers have no more than
  \<open>max_str_digits\<close> digits.
\<close>

lemma json_loads_encodable: "json_loads lim s = Inr v \<Longrightarrow> dumps_error lim v = None"
  using parse_results(1) [of "\<lambda>lim v. dumps_error lim v = None" "\<lambda>e. True" lim "skip_ws s"]
    match_literal_encodable
  by (auto simp: json_loads_def items_error_all pairs_error_all [symmetric]
      pairs_error_dict_of_pairs split: if_splits sum.splits)

section \<open>The empty string of the encoders\<close>

text \<open>
  \<open>json.loads\<close> returns a value or raises \<open>JSONDecodeError\<close>, the one exception of
  the parser that the source catches.
\<close>

definition decodable :: "nat \<Rightarrow> pystr \<Rightarrow> bool" where
  "decodable lim text =
     (case json_loads lim text of Inr v \<Rightarrow> True | Inl e \<Rightarrow> e = JSONDecodeError)"

text \<open>
  A record is rendered by \<open>to_xml\<close> when its arguments are a string that parses to a
  JSON object; \<open>to_xml\<close> leaves every other record out.
\<close>

definition renders :: "interpreter \<Rightarrow> ToolCall \<Rightarrow> bool" where
  "renders env tc =
     (case arguments (func tc) of
        JString text \<Rightarrow>
          (case json_loads (loads_depth env) text of Inr (JObject items) \<Rightarrow> True | _ \<Rightarrow> False)
      | _ \<Rightarrow> False)"

lemma dump_total:
  "dump tcs = Inr (map (\<lambda>tc. JObject [(py ''function'',
                    JObject [(py ''name'', name (func tc)),
                             (py ''arguments'', arguments (func tc))])]) tcs)"
  by (induction tcs) (auto simp: model_dump_def)

lemma indent_text_array_nonempty: "indent_text n (JArray xs) \<noteq> []"
  by (simp add: py_def)

lemma join_eq_Nil: "\<forall>p \<in> set ps. p \<noteq> [] \<Longrightarrow> join sep ps = [] \<longleftrightarrow> ps = []"
  by (cases ps) auto

lemma set_concat_options:
  "set (concat (map (case_option [] (\<lambda>p. [p])) ps)) = {p. Some p \<in> set ps}"
  by (induction ps) (auto split: option.splits)

lemma dumps_error_cases: "dumps_error lim v = Some e \<Longrightarrow> e = ValueError \<or> e = RecursionError"
  and "items_error lim1 vs = Some e \<Longrightarrow> e = ValueError \<or> e = RecursionError"
  and "pairs_error lim2 kvs = Some e \<Longrightarrow> e = ValueError \<or> e = RecursionError"
  by (induction lim v and lim1 vs and lim2 kvs rule: dumps_error_items_error_pairs_error.induct)
     (auto split: if_splits option.splits)

lemma json_dumps_error: "json_dumps lim v = Inl e \<Longrightarrow> e = ValueError \<or> e = RecursionError"
  by (auto simp: json_dumps_def dest: dumps_error_cases(1) split: option.splits)

lemma json_dumps_encodable: "dumps_error lim v = None \<Longrightarrow> json_dumps lim v = Inr (dumps_text v)"
  by (simp add: json_dumps_def)

lemma map_result_error: "map_result f xs = Inl e \<Longrightarrow> \<exists>x \<in> set xs. f x = Inl e"
  by (induction xs) (auto split: sum.splits)

lemma value_str_error: "value_str env v = Inl e \<Longrightarrow> e = ValueError \<or> e = RecursionError"
  by (auto simp: value_str_def dest: json_dumps_error split: json.splits)

lemma items_text_error: "items_text env items = Inl e \<Longrightarrow> e = ValueError \<or> e = RecursionError"
  by (auto simp: items_text_def dest!: map_result_error dest: value_str_error
      split: sum.splits prod.splits)

lemma xml_part_Some: "xml_part env str_of fmt tc = Inr (Some p) \<Longrightarrow> renders env tc \<and> p \<noteq> []"
  by (auto simp: xml_part_def xml_try_def renders_def qwen_lines_def invoke_lines_def py_def
      split: json.splits sum.splits if_splits)

lemma xml_part_None: "xml_part env str_of fmt tc = Inr None \<Longrightarrow> \<not> renders env tc"
  by (auto simp: xml_part_def xml_try_def renders_def dest: items_text_error
      split: json.splits sum.splits if_splits)

lemma value_str_encodable:
  "dumps_error (dumps_depth env) v = None \<Longrightarrow> \<exists>text. value_str env v = Inr text"
  by (auto simp: value_str_def json_dumps_def split: json.splits)

lemma items_text_encodable:
  assumes "pairs_error (dumps_depth env) items = None"
  shows "\<exists>texts. items_text env items = Inr texts"
proof -
  have "\<forall>x \<in> set items. \<exists>y. (\<lambda>(param_name, param_value).
        case value_str env param_value of
          Inl e \<Rightarrow> Inl e
        | Inr text \<Rightarrow> Inr (param_name, text)) x = Inr y"
  proof
    fix x assume x: "x \<in> set items"
    obtain k v where kv: "x = (k, v)" by (cases x)
    from assms x kv have "dumps_error (dumps_depth env) v = None"
      by (auto simp: pairs_error_all list_all_iff)
    from value_str_encodable [OF this] show "\<exists>y. (\<lambda>(param_name, param_value).
        case value_str env param_value of
          Inl e \<Rightarrow> Inl e
        | Inr text \<Rightarrow> Inr (param_name, text)) x = Inr y"
      by (auto simp: kv)
  qed
  then show ?thesis
    unfolding items_text_def map_result_Inr_iff .
qed

lemma xml_part_decodable:
  assumes "arguments (func tc) = JString text" "decodable (loads_depth env) text"
    "loads_depth env \<le> dumps_depth env + 1"
  shows "\<exists>r. xml_part env str_of fmt tc = Inr r"
proof (cases "json_loads (loads_depth env) text")
  case (Inl e)
  with assms(2) have "e = JSONDecodeError" by (simp add: decodable_def)
  with Inl show ?thesis by (simp add: xml_part_def xml_try_def assms(1))
next
  case (Inr v)
  show ?thesis
  proof (cases "is_dict v")
    case False
    with Inr show ?thesis
      by (auto simp: xml_part_def xml_try_def assms(1) is_dict_def split: json.splits)
  next
    case True
    then obtain items where v: "v = JObject items"
      by (auto simp: is_dict_def split: json.splits)
    from json_loads_encodable [OF Inr] have "pairs_error (loads_depth env - 1) items = None"
      by (auto simp: v split: if_splits)
    then have "pairs_error (dumps_depth env) items = None"
      by (rule dumps_error_mono(3)) (use assms(3) in simp)
    from items_text_encodable [OF this] obtain texts where "items_text env items = Inr texts" ..
    with Inr show ?thesis
      by (simp add: xml_part_def xml_try_def assms(1) v)
  qed
qed

lemma dumps_error_tool_call:
  assumes "3 \<le> lim" "dumps_error (lim - 3) n = None" "dumps_error (lim - 3) a = None"
  shows "dumps_error (lim - 1)
           (JObject [(py ''function'', JObject [(py ''name'', n), (py ''arguments'', a)])]) = None"
proof -
  have "lim - 1 - 1 - 1 = lim - 3" by simp
  with assms show ?thesis by simp
qed

text \<open>
  C9, as the code has it. \<open>to_json\<close> returns the empty string for the empty sequence,
  and the string it returns for another sequence is never empty; it returns a string
  for a sequence whose names and arguments the encoder writes within
  \<open>indent_depth env - 3\<close> levels, which all strings and \<open>None\<close> are. \<open>to_xml\<close> returns
  the empty string for the empty sequence; it returns a string whenever the arguments
  of every record are a string that \<open>json.loads\<close> parses or refuses with
  \<open>JSONDecodeError\<close> and the encoder nests as deep as the parser does below the
  outermost level; and the string it returns is non-empty exactly when at least one
  record is rendered, that is, has arguments that parse to a JSON object.
\<close>

theorem to_json_to_xml_empty:
  "to_json env [] = Inr []
   \<and> (to_json env tcs = Inr s \<longrightarrow> (s = [] \<longleftrightarrow> tcs = []))
   \<and> (tcs \<noteq> [] \<and> 3 \<le> indent_depth env
        \<and> (\<forall>tc \<in> set tcs. dumps_error (indent_depth env - 3) (name (func tc)) = None
              \<and> dumps_error (indent_depth env - 3) (arguments (func tc)) = None)
        \<longrightarrow> (\<exists>s'. to_json env tcs = Inr s' \<and> s' \<noteq> []))
   \<and> to_xml env str_of [] fmt = Inr []
   \<and> ((\<forall>tc \<in> set tcs. \<exists>text. arguments (func tc) = JString text
              \<and> decodable (loads_depth env) text)
        \<and> loads_depth env \<le> dumps_depth env + 1
        \<longrightarrow> (\<exists>s'. to_xml env str_of tcs fmt = Inr s'))
   \<and> (to_xml env str_of tcs fmt = Inr s \<longrightarrow> (s \<noteq> [] \<longleftrightarrow> (\<exists>tc \<in> set tcs. renders env tc)))"
proof (intro conjI impI)
  show "to_json env [] = Inr []" by (simp add: to_json_def)
  show "to_xml env str_of [] fmt = Inr []" by (simp add: to_xml_def)
next
  assume "to_json env tcs = Inr s"
  then show "s = [] \<longleftrightarrow> tcs = []"
    using indent_text_array_nonempty
    by (auto simp: to_json_def dump_total json_dumps_indent_def split: if_splits option.splits)
next
  assume a: "tcs \<noteq> [] \<and> 3 \<le> indent_depth env
        \<and> (\<forall>tc \<in> set tcs. dumps_error (indent_depth env - 3) (name (func tc)) = None
              \<and> dumps_error (indent_depth env - 3) (arguments (func tc)) = None)"
  let ?d = "\<lambda>tc. JObject [(py ''function'',
                    JObject [(py ''name'', name (func tc)),
                             (py ''arguments'', arguments (func tc))])]"
  have "list_all (\<lambda>v. dumps_error (indent_depth env - 1) v = None) (map ?d tcs)"
    unfolding list_all_iff using a dumps_error_tool_call [of "indent_depth env"] by auto
  then have "dumps_error (indent_depth env) (JArray (map ?d tcs)) = None"
    using a by (simp add: items_error_all)
  with a show "\<exists>s'. to_json env tcs = Inr s' \<and> s' \<noteq> []"
    using indent_text_array_nonempty
    by (simp add: to_json_def dump_total json_dumps_indent_def)
next
  assume a: "(\<forall>tc \<in> set tcs. \<exists>text. arguments (func tc) = JString text
              \<and> decodable (loads_depth env) text)
        \<and> loads_depth env \<le> dumps_depth env + 1"
  then have "\<forall>tc \<in> set tcs. \<exists>r. xml_part env str_of fmt tc = Inr r"
    using xml_part_decodable by blast
  then have "\<exists>ps. map_result (xml_part env str_of fmt) tcs = Inr ps"
    by (simp add: map_result_Inr_iff)
  then show "\<exists>s'. to_xml env str_of tcs fmt = Inr s'"
    by (auto simp: to_xml_def)
next
  assume a: "to_xml env str_of tcs fmt = Inr s"
  show "s \<noteq> [] \<longleftrightarrow> (\<exists>tc \<in> set tcs. renders env tc)"
  proof (cases "tcs = []")
    case True
    with a show ?thesis by (simp add: to_xml_def)
  next
    case False
    with a obtain ps where ps: "map_result (xml_part env str_of fmt) tcs = Inr ps"
      and s: "s = join [10] (concat (map (case_option [] (\<lambda>p. [p])) ps))"
      by (auto simp: to_xml_def split: sum.splits)
    from ps have l: "list_all2 (\<lambda>tc r. xml_part env str_of fmt tc = Inr r) tcs ps"
      by (rule map_result_Inr_map)
    have "(\<exists>tc \<in> set tcs. renders env tc) \<longleftrightarrow> (\<exists>p. Some p \<in> set ps)"
      using l
    proof (induction rule: list_all2_induct)
      case Nil
      then show ?case by simp
    next
      case (Cons tc tcs r rs)
      then show ?case
        by (cases r) (auto dest: xml_part_None xml_part_Some)
    qed
    moreover have "\<forall>p. Some p \<in> set ps \<longrightarrow> p \<noteq> []"
      using l
    proof (induction rule: list_all2_induct)
      case Nil
      then show ?case by simp
    next
      case (Cons tc tcs r rs)
      then show ?case by (auto dest: xml_part_Some)
    qed
    ultimately show ?thesis
      unfolding s
      by (subst join_eq_Nil) (auto simp: set_concat_options simp flip: set_empty)
  qed
qed

text \<open>
  The theorem at a sequence of one record whose arguments are the object
  \<open>{"a": 1}\<close>: both encoders return a non-empty string.
\<close>

theorem to_json_to_xml_empty_witness:
  \<open>renders env0 \<lparr>func = \<lparr>name = JString (py ''f''), arguments = JString (py ''{"a": 1}'')\<rparr>\<rparr>
   \<and> (\<exists>s. to_json env0 [\<lparr>func = \<lparr>name = JString (py ''f''),
                                arguments = JString (py ''{"a": 1}'')\<rparr>\<rparr>] = Inr s \<and> s \<noteq> [])
   \<and> (\<exists>s. to_xml env0 (\<lambda>v. []) [\<lparr>func = \<lparr>name = JString (py ''f''),
                                         arguments = JString (py ''{"a": 1}'')\<rparr>\<rparr>]
              (py ''claude'') = Inr s \<and> s \<noteq> [])\<close>
proof -
  let ?tc = \<open>\<lparr>func = \<lparr>name = JString (py ''f''), arguments = JString (py ''{"a": 1}'')\<rparr>\<rparr>\<close>
  have l: \<open>json_loads (loads_depth env0) (py ''{"a": 1}'') = Inr (JObject [(py ''a'', JInt 1)])\<close>
    by (simp add: json_eval env0_def)
  have r: "renders env0 ?tc"
    by (simp add: renders_def l)
  have d: \<open>\<forall>tc \<in> set [?tc]. \<exists>text. arguments (func tc) = JString text
              \<and> decodable (loads_depth env0) text\<close>
    by (simp add: decodable_def l)
  have e: "loads_depth env0 \<le> dumps_depth env0 + 1" "3 \<le> indent_depth env0"
    by (simp_all add: env0_def)
  have n: "\<forall>tc \<in> set [?tc]. dumps_error (indent_depth env0 - 3) (name (func tc)) = None
              \<and> dumps_error (indent_depth env0 - 3) (arguments (func tc)) = None"
    by simp
  from to_json_to_xml_empty [of env0 "[?tc]" "[]" "\<lambda>v. []" "py ''claude''"] d e
  obtain s where s: "to_xml env0 (\<lambda>v. []) [?tc] (py ''claude'') = Inr s"
    by blast
  from to_json_to_xml_empty [of env0 "[?tc]" s "\<lambda>v. []" "py ''claude''"] r s e n
  show ?thesis by auto
qed

text \<open>
  C9 as stated fails: a sequence of one record whose arguments are the string \<open>oops\<close>
  is not empty, and \<open>to_xml\<close> returns the empty string for it, since the record is
  dropped when its arguments do not parse.
\<close>

theorem to_xml_empty_counterexample:
  \<open>[\<lparr>func = \<lparr>name = JString (py ''f''), arguments = JString (py ''oops'')\<rparr>\<rparr>] \<noteq> []
   \<and> to_xml env0 (\<lambda>v. [])
        [\<lparr>func = \<lparr>name = JString (py ''f''), arguments = JString (py ''oops'')\<rparr>\<rparr>]
        (py ''claude'') = Inr []\<close>
  by (simp add: json_eval tc_eval env0_def)

section \<open>The structure of from_xml\<close>

lemma findall_all:
  assumes "\<And>s g r. m s = Some (g, r) \<Longrightarrow> P g"
  shows "\<forall>g \<in> set (findall m s). P g"
  using assms
proof (induction m s rule: findall.induct)
  case (1 m s)
  show ?case
  proof (cases "m s")
    case None
    with 1 show ?thesis
      by (subst findall.simps) (auto split: list.splits)
  next
    case (Some a)
    obtain g r where a: "a = (g, r)" by (cases a)
    have "P g" using 1(4) Some a by blast
    with 1 Some a show ?thesis
      by (subst findall.simps) (auto split: list.splits)
  qed
qed

lemma tool_call_pattern_brace: "tool_call_pattern s = Some (g, r) \<Longrightarrow> \<exists>b. g = 123 # b"
  by (auto simp: tool_call_pattern_def py_def split: option.splits)

lemma dict_get_or_encodable:
  assumes "dumps_error lim (JObject d) = None" "lim \<le> lim'"
  shows "dumps_error lim' (dict_get_or d k (JObject [])) = None"
proof (cases "dict_get d k")
  case None
  with assms show ?thesis by (auto simp: dict_get_or_def split: if_splits)
next
  case (Some v)
  from assms(1) have "pairs_error (lim - 1) d = None" by (simp split: if_splits)
  from pairs_error_dict_get [OF this Some] have "dumps_error lim' v = None"
    by (rule dumps_error_mono(1)) (use assms(2) in simp)
  with Some show ?thesis by (simp add: dict_get_or_def)
qed

text \<open>
  The record of a block of the embedded-JSON format whose payload parses to the
  object \<open>d\<close>.
\<close>

definition embedded_record :: "(pystr \<times> json) list \<Rightarrow> ToolCall" where
  "embedded_record d =
     \<lparr>func = \<lparr>name = dict_get_or d (py ''name'') JNull,
              arguments =
                (if \<not> is_str (dict_get_or d (py ''arguments'') JNull)
                 then JString (dumps_text (dict_get_or d (py ''arguments'') (JObject [])))
                 else dict_get_or d (py ''arguments'') JNull)\<rparr>\<rparr>"

lemma tool_call_block_object:
  assumes "json_loads (loads_depth env) json_str = Inr (JObject d)"
    and "loads_depth env \<le> dumps_depth env"
  shows "tool_call_block env json_str = Inr (Some (embedded_record d))"
proof -
  have "dumps_error (loads_depth env) (JObject d) = None"
    using assms(1) by (rule json_loads_encodable)
  then have "dumps_error (dumps_depth env) (dict_get_or d (py ''arguments'') (JObject [])) = None"
    using assms(2) by (rule dict_get_or_encodable)
  then show ?thesis
    by (simp add: tool_call_block_def tool_call_try_def ToolCall_new_def py_def assms(1)
        json_dumps_def embedded_record_def)
qed

lemma tool_call_block_error:
  "json_loads (loads_depth env) json_str = Inl JSONDecodeError \<Longrightarrow>
   tool_call_block env json_str = Inr None"
  by (simp add: tool_call_block_def tool_call_try_def)

lemma tool_call_block_raises:
  "json_loads (loads_depth env) json_str = Inl e \<Longrightarrow> e \<noteq> JSONDecodeError \<Longrightarrow>
   tool_call_block env json_str = Inl e"
  by (simp add: tool_call_block_def tool_call_try_def)

lemma tool_call_block_decodable:
  assumes "decodable (loads_depth env) (123 # b)" "loads_depth env \<le> dumps_depth env"
  shows "case json_loads (loads_depth env) (123 # b) of
           Inl e \<Rightarrow> tool_call_block env (123 # b) = Inr None
         | Inr v \<Rightarrow> (\<exists>tc. tool_call_block env (123 # b) = Inr (Some tc))"
proof (cases "json_loads (loads_depth env) (123 # b)")
  case (Inl e)
  with assms(1) show ?thesis by (simp add: decodable_def tool_call_block_error)
next
  case (Inr v)
  then obtain d where "v = JObject d"
    using json_loads_brace [OF Inr] by (auto simp: is_dict_def split: json.splits)
  with Inr assms(2) show ?thesis by (simp add: tool_call_block_object)
qed

lemma from_xml_embedded:
  assumes "findall tool_call_pattern text \<noteq> []"
    and "\<forall>m \<in> set (findall tool_call_pattern text). \<exists>r. tool_call_block env m = Inr r"
  shows "from_xml env text =
           Inr (concat (map (\<lambda>m. case tool_call_block env m of Inr (Some tc) \<Rightarrow> [tc] | _ \<Rightarrow> [])
                  (findall tool_call_pattern text)))"
proof -
  let ?ms = "findall tool_call_pattern text"
  let ?g = "\<lambda>m. case tool_call_block env m of Inr r \<Rightarrow> r | Inl e \<Rightarrow> None"
  have "tool_call_block env m = Inr (?g m)" if "m \<in> set ?ms" for m
    using assms(2) that by auto
  then have "map_result (tool_call_block env) ?ms = Inr (map ?g ?ms)"
    by (intro map_result_total)
  moreover have "case_option [] (\<lambda>tc. [tc]) (?g m)
      = (case tool_call_block env m of Inr (Some tc) \<Rightarrow> [tc] | _ \<Rightarrow> [])" for m
    by (simp split: sum.splits option.splits)
  ultimately show ?thesis
    using assms(1) by (simp add: from_xml_def Let_def comp_def)
qed

lemma from_xml_embedded_decodable:
  assumes "findall tool_call_pattern text \<noteq> []"
    and "\<forall>m \<in> set (findall tool_call_pattern text). decodable (loads_depth env) m"
    and "loads_depth env \<le> dumps_depth env"
  shows "from_xml env text =
           Inr (concat (map (\<lambda>m. case tool_call_block env m of Inr (Some tc) \<Rightarrow> [tc] | _ \<Rightarrow> [])
                  (findall tool_call_pattern text)))"
    and "\<forall>m \<in> set (findall tool_call_pattern text).
           case json_loads (loads_depth env) m of
             Inl e \<Rightarrow> tool_call_block env m = Inr None
           | Inr v \<Rightarrow> (\<exists>tc. tool_call_block env m = Inr (Some tc))"
proof -
  have b: "\<forall>m \<in> set (findall tool_call_pattern text). \<exists>b. m = 123 # b"
    by (rule findall_all) (rule tool_call_pattern_brace)
  show c: "\<forall>m \<in> set (findall tool_call_pattern text).
           case json_loads (loads_depth env) m of
             Inl e \<Rightarrow> tool_call_block env m = Inr None
           | Inr v \<Rightarrow> (\<exists>tc. tool_call_block env m = Inr (Some tc))"
  proof
    fix m assume m: "m \<in> set (findall tool_call_pattern text)"
    with b obtain c where c: "m = 123 # c" by blast
    from assms(2) m have "decodable (loads_depth env) (123 # c)" unfolding c by blast
    from tool_call_block_decodable [OF this assms(3)]
    show "case json_loads (loads_depth env) m of
             Inl e \<Rightarrow> tool_call_block env m = Inr None
           | Inr v \<Rightarrow> (\<exists>tc. tool_call_block env m = Inr (Some tc))"
      unfolding c .
  qed
  have "\<forall>m \<in> set (findall tool_call_pattern text). \<exists>r. tool_call_block env m = Inr r"
  proof
    fix m assume "m \<in> set (findall tool_call_pattern text)"
    with c show "\<exists>r. tool_call_block env m = Inr r"
      by (cases "json_loads (loads_depth env) m") force+
  qed
  with assms(1) show "from_xml env text =
           Inr (concat (map (\<lambda>m. case tool_call_block env m of Inr (Some tc) \<Rightarrow> [tc] | _ \<Rightarrow> [])
                  (findall tool_call_pattern text)))"
    by (rule from_xml_embedded)
qed

subsection \<open>Parameter values\<close>

text \<open>
  The value stored for a parameter whose text \<open>json.loads\<close> parses or refuses with
  \<open>JSONDecodeError\<close>: the parsed value of the stripped text, or the stripped text.
\<close>

definition coerced :: "interpreter \<Rightarrow> pystr \<Rightarrow> json" where
  "coerced env param_value =
     (case json_loads (loads_depth env) (strip param_value) of
        Inr parsed_value \<Rightarrow> parsed_value
      | Inl e \<Rightarrow> JString (strip param_value))"


lemma param_value_of_raises:
  "json_loads (loads_depth env) (strip v) = Inl e \<Longrightarrow> e \<noteq> JSONDecodeError \<Longrightarrow>
   param_value_of env v = Inl e"
  by (simp add: param_value_of_def)

lemma coerced_encodable: "dumps_error (loads_depth env) (coerced env v) = None"
  by (auto simp: coerced_def dest: json_loads_encodable split: sum.splits)







subsection \<open>The order of the conventions\<close>

text \<open>
  C3. \<open>from_xml\<close> commits to one convention. Where the embedded-JSON pattern matches
  at least once, the result is that of the loop over its matches alone: the records
  of the matches, where no match raises, and in every case the same for two texts
  with the same embedded-JSON matches, whatever tagged-function or invoke blocks they
  hold. The tagged-function pattern is used only where the embedded-JSON pattern
  matches nowhere, and then two texts with the same tagged-function matches decode
  alike; the invoke pattern is used only where both the others match nowhere.
\<close>

theorem from_xml_priority:
  "(findall tool_call_pattern text \<noteq> [] \<longrightarrow>
      from_xml env text =
        (case map_result (tool_call_block env) (findall tool_call_pattern text) of
           Inl e \<Rightarrow> Inl e
         | Inr rs \<Rightarrow> Inr (concat (map (case_option [] (\<lambda>tc. [tc])) rs)))
      \<and> ((\<forall>m \<in> set (findall tool_call_pattern text). \<exists>r. tool_call_block env m = Inr r) \<longrightarrow>
           from_xml env text =
             Inr (concat (map (\<lambda>m. case tool_call_block env m of Inr (Some tc) \<Rightarrow> [tc] | _ \<Rightarrow> [])
                    (findall tool_call_pattern text))))
      \<and> (findall tool_call_pattern text' = findall tool_call_pattern text \<longrightarrow>
           from_xml env text' = from_xml env text))
   \<and> (findall tool_call_pattern text = [] \<and> findall qwen_tool_call_pattern text \<noteq> [] \<longrightarrow>
        from_xml env text =
          map_result (function_block env qwen_param_pattern)
            (findall qwen_tool_call_pattern text)
        \<and> (findall tool_call_pattern text' = []
             \<and> findall qwen_tool_call_pattern text' = findall qwen_tool_call_pattern text \<longrightarrow>
             from_xml env text' = from_xml env text))
   \<and> (findall tool_call_pattern text = [] \<and> findall qwen_tool_call_pattern text = [] \<longrightarrow>
        from_xml env text =
          map_result (function_block env param_pattern) (findall invoke_pattern text))"
proof (intro conjI impI)
  assume "findall tool_call_pattern text \<noteq> []"
  then show "from_xml env text =
        (case map_result (tool_call_block env) (findall tool_call_pattern text) of
           Inl e \<Rightarrow> Inl e
         | Inr rs \<Rightarrow> Inr (concat (map (case_option [] (\<lambda>tc. [tc])) rs)))"
    by (simp add: from_xml_def)
next
  assume "findall tool_call_pattern text \<noteq> []"
    and "\<forall>m \<in> set (findall tool_call_pattern text). \<exists>r. tool_call_block env m = Inr r"
  then show "from_xml env text =
             Inr (concat (map (\<lambda>m. case tool_call_block env m of Inr (Some tc) \<Rightarrow> [tc] | _ \<Rightarrow> [])
                    (findall tool_call_pattern text)))"
    by (rule from_xml_embedded)
next
  assume "findall tool_call_pattern text \<noteq> []"
    and "findall tool_call_pattern text' = findall tool_call_pattern text"
  then show "from_xml env text' = from_xml env text"
    by (simp add: from_xml_def)
next
  assume "findall tool_call_pattern text = [] \<and> findall qwen_tool_call_pattern text \<noteq> []"
  then show "from_xml env text =
          map_result (function_block env qwen_param_pattern)
            (findall qwen_tool_call_pattern text)"
    by (simp add: from_xml_def)
next
  assume "findall tool_call_pattern text = [] \<and> findall qwen_tool_call_pattern text \<noteq> []"
    and "findall tool_call_pattern text' = []
             \<and> findall qwen_tool_call_pattern text' = findall qwen_tool_call_pattern text"
  then show "from_xml env text' = from_xml env text"
    by (simp add: from_xml_def)
next
  assume "findall tool_call_pattern text = [] \<and> findall qwen_tool_call_pattern text = []"
  then show "from_xml env text =
          map_result (function_block env param_pattern) (findall invoke_pattern text)"
    by (simp add: from_xml_def)
qed

text \<open>
  The theorem at the text that holds an embedded-JSON block and an invoke block: both
  patterns match, and the text decodes as the embedded-JSON block alone does.
\<close>

theorem from_xml_priority_witness:
  \<open>findall tool_call_pattern
      (py ''<tool_call>{"name": "f", "arguments": {"a": 1}}</tool_call> <invoke name="g"><parameter name="x">1</parameter></invoke>'')
      = [py ''{"name": "f", "arguments": {"a": 1}}'']
   \<and> findall invoke_pattern
      (py ''<tool_call>{"name": "f", "arguments": {"a": 1}}</tool_call> <invoke name="g"><parameter name="x">1</parameter></invoke>'')
      = [(py ''g'', py ''<parameter name="x">1</parameter>'')]
   \<and> from_xml env0
      (py ''<tool_call>{"name": "f", "arguments": {"a": 1}}</tool_call> <invoke name="g"><parameter name="x">1</parameter></invoke>'')
      = Inr [\<lparr>func = \<lparr>name = JString (py ''f''), arguments = JString (py ''{"a": 1}'')\<rparr>\<rparr>]
   \<and> from_xml env0 (py ''<tool_call>{"name": "f", "arguments": {"a": 1}}</tool_call>'')
      = Inr [\<lparr>func = \<lparr>name = JString (py ''f''), arguments = JString (py ''{"a": 1}'')\<rparr>\<rparr>]\<close>
proof -
  let ?t = \<open>py ''<tool_call>{"name": "f", "arguments": {"a": 1}}</tool_call> <invoke name="g"><parameter name="x">1</parameter></invoke>''\<close>
  let ?t' = \<open>py ''<tool_call>{"name": "f", "arguments": {"a": 1}}</tool_call>''\<close>
  have m: \<open>findall tool_call_pattern ?t = [py ''{"name": "f", "arguments": {"a": 1}}'']\<close>
    by (simp add: re_eval)
  have m': \<open>findall tool_call_pattern ?t' = [py ''{"name": "f", "arguments": {"a": 1}}'']\<close>
    by (simp add: re_eval)
  have i: \<open>findall invoke_pattern ?t = [(py ''g'', py ''<parameter name="x">1</parameter>'')]\<close>
    by (simp add: re_eval)
  have b: \<open>tool_call_block env0 (py ''{"name": "f", "arguments": {"a": 1}}'')
      = Inr (Some \<lparr>func = \<lparr>name = JString (py ''f''), arguments = JString (py ''{"a": 1}'')\<rparr>\<rparr>)\<close>
    by (simp add: json_eval dumps_eval tc_eval env0_def)
  from from_xml_priority [of ?t env0 ?t'] m m' i b show ?thesis
    by simp
qed

subsection \<open>Malformed blocks\<close>




subsection \<open>Missing keys\<close>

text \<open>
  C10. In the embedded-JSON convention a block whose payload parses to an object yields
  a record, whatever keys the object has: the name of the record is the value under
  \<open>name\<close>, or \<open>None\<close> where the object has no such key, and the arguments of the
  record are the text \<open>{}\<close> where the object has no key \<open>arguments\<close>. The record is in
  every sequence that \<open>from_xml\<close> returns for the text, and \<open>from_xml\<close> returns a
  sequence where \<open>json.loads\<close> parses every matched payload or refuses it with
  \<open>JSONDecodeError\<close>. The encoder is taken to nest as deep as the parser.
\<close>

theorem from_xml_missing_keys:
  assumes "json_str \<in> set (findall tool_call_pattern text)"
    and "json_loads (loads_depth env) json_str = Inr (JObject d)"
    and "loads_depth env \<le> dumps_depth env"
  shows "\<exists>tc. tool_call_block env json_str = Inr (Some tc)
     \<and> name (func tc) = dict_get_or d (py ''name'') JNull
     \<and> (dict_get d (py ''name'') = None \<longrightarrow> name (func tc) = JNull)
     \<and> (dict_get d (py ''arguments'') = None \<longrightarrow> arguments (func tc) = JString (py ''{}''))
     \<and> (\<forall>rs. from_xml env text = Inr rs \<longrightarrow> tc \<in> set rs)
     \<and> ((\<forall>m \<in> set (findall tool_call_pattern text). decodable (loads_depth env) m) \<longrightarrow>
          (\<exists>rs. from_xml env text = Inr rs \<and> tc \<in> set rs))"
proof -
  let ?ms = "findall tool_call_pattern text"
  let ?tc = "embedded_record d"
  from assms(1) have ne: "?ms \<noteq> []" by auto
  have b: "tool_call_block env json_str = Inr (Some ?tc)"
    using assms(2,3) by (rule tool_call_block_object)
  have 1: "name (func ?tc) = dict_get_or d (py ''name'') JNull"
    by (simp add: embedded_record_def)
  have 2: "dict_get d (py ''name'') = None \<longrightarrow> name (func ?tc) = JNull"
    by (simp add: embedded_record_def dict_get_or_def)
  have 3: "dict_get d (py ''arguments'') = None \<longrightarrow> arguments (func ?tc) = JString (py ''{}'')"
    by (simp add: embedded_record_def dict_get_or_def is_str_def py_def)
  have 4: "tc \<in> set rs" if r: "from_xml env text = Inr rs" and tc: "tc = ?tc" for rs tc
  proof -
    from r ne obtain os where os: "map_result (tool_call_block env) ?ms = Inr os"
      and rs: "rs = concat (map (case_option [] (\<lambda>tc. [tc])) os)"
      by (auto simp: from_xml_def split: sum.splits)
    from os have "list_all2 (\<lambda>m r. tool_call_block env m = Inr r) ?ms os"
      by (rule map_result_Inr_map)
    then have len: "length ?ms = length os"
      and nth: "\<forall>i < length ?ms. tool_call_block env (?ms ! i) = Inr (os ! i)"
      by (simp_all add: list_all2_conv_all_nth)
    from assms(1) obtain i where i: "i < length ?ms" "?ms ! i = json_str"
      by (auto simp: in_set_conv_nth)
    with nth b have "os ! i = Some ?tc" by auto
    with i len have "Some ?tc \<in> set os" by (metis nth_mem)
    then show ?thesis by (simp add: rs tc set_concat_options)
  qed
  have 5: "\<exists>rs. from_xml env text = Inr rs \<and> ?tc \<in> set rs"
    if "\<forall>m \<in> set ?ms. decodable (loads_depth env) m"
  proof -
    from from_xml_embedded_decodable(1) [OF ne that assms(3)]
    obtain rs where "from_xml env text = Inr rs" by blast
    with 4 show ?thesis by blast
  qed
  show ?thesis
  proof (intro exI [of _ ?tc] conjI allI impI)
    show "tool_call_block env json_str = Inr (Some ?tc)" by (rule b)
    show "name (func ?tc) = dict_get_or d (py ''name'') JNull" by (rule 1)
    show "name (func ?tc) = JNull" if "dict_get d (py ''name'') = None"
      using 2 that by simp
    show "arguments (func ?tc) = JString (py ''{}'')" if "dict_get d (py ''arguments'') = None"
      using 3 that by simp
    show "?tc \<in> set rs" if "from_xml env text = Inr rs" for rs
      using that by (rule 4) simp
    show "\<exists>rs. from_xml env text = Inr rs \<and> ?tc \<in> set rs"
      if "\<forall>m \<in> set ?ms. decodable (loads_depth env) m"
      using that by (rule 5)
  qed
qed

text \<open>The theorem at a block whose object has neither key.\<close>

theorem from_xml_missing_keys_witness:
  \<open>from_xml env0 (py ''<tool_call>{"id": 7}</tool_call>'')
     = Inr [\<lparr>func = \<lparr>name = JNull, arguments = JString (py ''{}'')\<rparr>\<rparr>]\<close>
proof -
  let ?t = \<open>py ''<tool_call>{"id": 7}</tool_call>''\<close>
  have m: \<open>findall tool_call_pattern ?t = [py ''{"id": 7}'']\<close>
    by (simp add: re_eval)
  have l: \<open>json_loads (loads_depth env0) (py ''{"id": 7}'') = Inr (JObject [(py ''id'', JInt 7)])\<close>
    by (simp add: json_eval env0_def)
  have i: \<open>py ''{"id": 7}'' \<in> set (findall tool_call_pattern ?t)\<close>
    by (simp add: m)
  have e: "loads_depth env0 \<le> dumps_depth env0"
    by (simp add: env0_def)
  have n: \<open>dict_get [(py ''id'', JInt 7)] (py ''name'') = None\<close>
    \<open>dict_get [(py ''id'', JInt 7)] (py ''arguments'') = None\<close>
    by (simp_all add: py_def)
  have d: \<open>\<forall>m \<in> set (findall tool_call_pattern ?t). decodable (loads_depth env0) m\<close>
    by (simp add: m decodable_def l)
  from from_xml_missing_keys [OF i l e] obtain tc rs where
    nm: "name (func tc) = JNull" and ar: "arguments (func tc) = JString (py ''{}'')"
    and rs: "from_xml env0 ?t = Inr rs" "tc \<in> set rs"
    unfolding n using d by blast
  obtain f where f: "tc = \<lparr>func = f\<rparr>" by (cases tc)
  obtain n a where na: "f = \<lparr>name = n, arguments = a\<rparr>" by (cases f)
  have tc: "tc = \<lparr>func = \<lparr>name = JNull, arguments = JString (py ''{}'')\<rparr>\<rparr>"
    using nm ar by (simp add: f na)
  have "from_xml env0 ?t = Inr [\<lparr>func = \<lparr>name = JNull, arguments = JString (py ''{}'')\<rparr>\<rparr>]"
    by (simp add: json_eval dumps_eval re_eval tc_eval env0_def)
  with rs tc show ?thesis by auto
qed

section \<open>The failures of from_json\<close>

text \<open>
  An element of the array format that misses a field: a mapping without the key
  \<open>function\<close>, or one whose \<open>function\<close> is a mapping without the key \<open>name\<close> or
  without the key \<open>arguments\<close>.
\<close>

definition missing_field :: "json \<Rightarrow> bool" where
  "missing_field x =
     (case x of
        JObject d \<Rightarrow>
          (case dict_get d (py ''function'') of
             None \<Rightarrow> True
           | Some (JObject f) \<Rightarrow>
               dict_get f (py ''name'') = None \<or> dict_get f (py ''arguments'') = None
           | Some _ \<Rightarrow> False)
      | _ \<Rightarrow> False)"

lemma dict_get_dict_set:
  "dict_get (dict_set d k v) k' = (if k' = k then Some v else dict_get d k')"
  by (induction d) auto

lemma missing_field_fails:
  assumes "missing_field x"
  shows "(\<exists>e. stringify_arguments env x = Inl e)
       \<or> (\<exists>x' e. stringify_arguments env x = Inr x' \<and> ToolCall_kwargs x' = Inl e)"
proof -
  have ne: "py ''arguments'' \<noteq> py ''name''" "py ''name'' \<noteq> py ''arguments''"
    by (simp_all add: py_def)
  from assms obtain d where d: "x = JObject d"
    by (auto simp: missing_field_def split: json.splits)
  show ?thesis
  proof (cases "dict_get d (py ''function'')")
    case None
    then show ?thesis by (simp add: d stringify_arguments_def)
  next
    case (Some fv)
    with assms d obtain f where f: "fv = JObject f"
      and m: "dict_get f (py ''name'') = None \<or> dict_get f (py ''arguments'') = None"
      by (auto simp: missing_field_def split: json.splits)
    show ?thesis
    proof (cases "dict_get f (py ''arguments'')")
      case None
      then show ?thesis by (simp add: d Some f stringify_arguments_def)
    next
      case a: (Some a)
      with m have n: "dict_get f (py ''name'') = None" by simp
      show ?thesis
      proof (cases "json_dumps (dumps_depth env) a")
        case (Inl e)
        then show ?thesis
          using a Some by (simp add: d f stringify_arguments_def)
      next
        case (Inr t)
        then show ?thesis
          using a n Some
          by (simp add: d f stringify_arguments_def ToolCall_kwargs_def ToolCall_new_def
              dict_get_dict_set ne)
      qed
    qed
  qed
qed

text \<open>
  C5. \<open>from_json\<close> fails with the error of the parser when the text is no JSON. It
  fails, with no record returned, when the parsed value is taken in the array format
  and one of its elements misses \<open>function\<close>, \<open>name\<close> or \<open>arguments\<close>, whatever
  the other elements are. (A missing \<open>function\<close> or \<open>arguments\<close> is the \<open>KeyError\<close> of
  the loop; a missing \<open>name\<close> is refused by the constructor of the record.)
\<close>

theorem from_json_fails:
  "(json_loads (loads_depth env) tool_calls_str = Inl e \<longrightarrow> from_json env tool_calls_str = Inl e)
   \<and> (json_loads (loads_depth env) tool_calls_str = Inr parsed \<and> \<not> is_qwen_format parsed
        \<and> x \<in> set (case parsed of JArray xs \<Rightarrow> xs | _ \<Rightarrow> [parsed]) \<and> missing_field x
        \<longrightarrow> (\<exists>e'. from_json env tool_calls_str = Inl e'))"
proof (intro conjI impI, goal_cases)
  case 1
  then show ?case by (simp add: from_json_def)
next
  case 2
  define tcs where "tcs = (case parsed of JArray xs \<Rightarrow> xs | _ \<Rightarrow> [parsed])"
  from 2 have l: "json_loads (loads_depth env) tool_calls_str = Inr parsed"
    and q: "\<not> is_qwen_format parsed"
    and x: "x \<in> set tcs" and mf: "missing_field x"
    unfolding tcs_def by blast+
  have f: "from_json env tool_calls_str =
      (case map_result (stringify_arguments env) tcs of
         Inl e \<Rightarrow> Inl e
       | Inr tcs' \<Rightarrow> map_result ToolCall_kwargs tcs')"
    unfolding from_json_def tcs_def by (simp add: l q)
  show ?case
  proof (cases "map_result (stringify_arguments env) tcs")
    case (Inl e1)
    then show ?thesis by (simp add: f)
  next
    case (Inr tcs')
    then have a: "list_all2 (\<lambda>x y. stringify_arguments env x = Inr y) tcs tcs'"
      by (rule map_result_Inr_map)
    from x obtain i where i: "i < length tcs" "tcs ! i = x"
      by (auto simp: in_set_conv_nth)
    from a i have si: "stringify_arguments env x = Inr (tcs' ! i)" and il: "i < length tcs'"
      by (auto simp: list_all2_conv_all_nth)
    from missing_field_fails [OF mf, of env] si obtain e2
      where "ToolCall_kwargs (tcs' ! i) = Inl e2"
      by auto
    moreover have "tcs' ! i \<in> set tcs'" using il by simp
    ultimately obtain e3 where "map_result ToolCall_kwargs tcs' = Inl e3"
      using map_result_fails [of "tcs' ! i" tcs' ToolCall_kwargs e2] by blast
    with Inr show ?thesis by (simp add: f)
  qed
qed

text \<open>
  The theorem at a text that is no JSON and at an array whose element has no
  \<open>name\<close>.
\<close>

theorem from_json_fails_witness:
  \<open>from_json env0 (py ''hello'') = Inl JSONDecodeError
   \<and> (\<exists>e. from_json env0 (py ''[{"function": {"arguments": {}}}]'') = Inl e)\<close>
proof -
  have 1: \<open>json_loads (loads_depth env0) (py ''hello'') = Inl JSONDecodeError\<close>
    by (simp add: json_eval env0_def)
  let ?s = \<open>py ''[{"function": {"arguments": {}}}]''\<close>
  let ?p = \<open>JArray [JObject [(py ''function'', JObject [(py ''arguments'', JObject [])])]]\<close>
  have 2: "json_loads (loads_depth env0) ?s = Inr ?p"
    by (simp add: json_eval env0_def)
  have 3: "\<not> is_qwen_format ?p"
    by (simp add: is_qwen_format_def)
  have 4: "missing_field (JObject [(py ''function'', JObject [(py ''arguments'', JObject [])])])"
    by (simp add: missing_field_def py_def)
  show ?thesis
    using from_json_fails [of env0 \<open>py ''hello''\<close> JSONDecodeError JNull JNull]
      from_json_fails [of env0 ?s JSONDecodeError ?p
        \<open>JObject [(py ''function'', JObject [(py ''arguments'', JObject [])])]\<close>]
    by (simp add: 1 2 3 4)
qed

section \<open>The single-object format of from_json\<close>

text \<open>
  C6 at \<open>{"name":"f","arguments":[1,2]}\<close>: the arguments of the record are the list
  itself, not its serialization \<open>[1, 2]\<close>, since only a \<open>dict\<close> is serialized there.
\<close>

theorem from_json_flat_list_arguments:
  \<open>from_json env0 (py ''{"name":"f","arguments":[1,2]}'')
     = Inr [\<lparr>func = \<lparr>name = JString (py ''f''), arguments = JArray [JInt 1, JInt 2]\<rparr>\<rparr>]
   \<and> json_dumps (dumps_depth env0) (JArray [JInt 1, JInt 2]) = Inr (py ''[1, 2]'')\<close>
proof (intro conjI)
  show \<open>from_json env0 (py ''{"name":"f","arguments":[1,2]}'')
     = Inr [\<lparr>func = \<lparr>name = JString (py ''f''), arguments = JArray [JInt 1, JInt 2]\<rparr>\<rparr>]\<close>
    by (simp add: json_eval dumps_eval tc_eval env0_def)
  show \<open>json_dumps (dumps_depth env0) (JArray [JInt 1, JInt 2]) = Inr (py ''[1, 2]'')\<close>
    by (simp add: json_eval dumps_eval tc_eval env0_def)
qed

section \<open>A parameter value that the parser refuses with another exception\<close>

lemma findall_Nil: "m [] = None \<Longrightarrow> findall m [] = []"
  by (subst findall.simps) simp

lemma findall_None: "m (c # cs) = None \<Longrightarrow> findall m (c # cs) = findall m cs"
  by (subst findall.simps) simp

lemma findall_Some:
  "m s = Some (g, rest) \<Longrightarrow> length rest < length s \<Longrightarrow> findall m s = g # findall m rest"
  by (subst findall.simps) simp

lemma findall_replicate:
  assumes "\<And>s. m (c # s) = None"
  shows "findall m (replicate n c @ b) = findall m b"
  by (induction n) (simp_all add: findall_None assms)

lemma lazy_until_replicate:
  assumes "\<And>s. close (c # s) = None"
  shows "lazy_until close (replicate n c @ b) =
     (case lazy_until close b of None \<Rightarrow> None | Some (g, r) \<Rightarrow> Some (replicate n c @ g, r))"
  by (induction n) (auto simp: assms cons_fst_def split: option.splits)

lemma match_lit_digit: "match_lit (60 # p) (49 # s) = None"
  by (simp add: match_lit_def startswith_def)

lemma patterns_digit:
  "tool_call_pattern (49 # s) = None" "qwen_tool_call_pattern (49 # s) = None"
  "invoke_pattern (49 # s) = None" "param_pattern (49 # s) = None"
  "qwen_param_pattern (49 # s) = None"
  by (simp_all add: tool_call_pattern_def qwen_tool_call_pattern_def invoke_pattern_def
      param_pattern_def qwen_param_pattern_def py_def match_lit_digit)

lemma strip_digits: "strip (replicate n 49) = replicate n 49"
proof -
  have "dropWhile isspace (replicate n 49) = replicate n 49"
    by (cases n) (simp_all add: isspace_def)
  then show ?thesis by (simp add: strip_def)
qed

text \<open>
  \<open>json.loads\<close> of a run of more than \<open>max_str_digits\<close> digits \<open>1\<close>: the text is a JSON
  number, and the conversion to \<open>int\<close> raises \<open>ValueError\<close>.
\<close>

lemma json_loads_long_integer:
  assumes "max_str_digits < n"
  shows "json_loads lim (replicate n 49) = Inl ValueError"
proof -
  from assms obtain k where n: "n = Suc k" by (cases n) auto
  have d: "is_digit 49" by (simp add: is_digit_def)
  have mi: "match_integer (49 # replicate k 49) = Some (49 # replicate k 49, [])"
    by (simp add: match_integer_def d)
  have "match_number (49 # replicate k 49) = Inl ValueError"
    using assms
    by (simp add: match_number_def match_minus_def mi match_frac_def match_exp_def n)
  then have "match_literal (49 # replicate k 49) = Inl ValueError"
    by (simp add: n match_literal_def startswith_def py_def)
  then have "parse_value lim (49 # replicate k 49) = Inl ValueError"
    by (simp add: parse_value_literal)
  then show ?thesis
    by (simp add: json_loads_def n startswith_def skip_ws_def is_ws_def)
qed

lemma qwen_long_integer:
  \<open>findall tool_call_pattern
     (py ''<tool_call><function=f><parameter=n>'' @ replicate n 49
      @ py ''</parameter></function></tool_call>'')
     = []\<close>
  \<open>findall qwen_tool_call_pattern
     (py ''<tool_call><function=f><parameter=n>'' @ replicate n 49
      @ py ''</parameter></function></tool_call>'')
     = [(py ''f'', py ''<parameter=n>'' @ replicate n 49 @ py ''</parameter>'')]\<close>
  \<open>findall qwen_param_pattern (py ''<parameter=n>'' @ replicate n 49 @ py ''</parameter>'')
     = [(py ''n'', replicate n 49)]\<close>
  by (simp_all add: py_def findall_Nil findall_None findall_Some findall_replicate
      lazy_until_replicate patterns_digit match_lit_digit
      tool_call_pattern_def qwen_tool_call_pattern_def qwen_param_pattern_def
      match_lit_def match_name_def startswith_def cons_fst_def isspace_def)

lemma invoke_long_integer:
  \<open>findall tool_call_pattern
     (py ''<invoke name="f"><parameter name="n">'' @ replicate n 49 @ py ''</parameter></invoke>'')
     = []\<close>
  \<open>findall qwen_tool_call_pattern
     (py ''<invoke name="f"><parameter name="n">'' @ replicate n 49 @ py ''</parameter></invoke>'')
     = []\<close>
  \<open>findall invoke_pattern
     (py ''<invoke name="f"><parameter name="n">'' @ replicate n 49 @ py ''</parameter></invoke>'')
     = [(py ''f'', py ''<parameter name="n">'' @ replicate n 49 @ py ''</parameter>'')]\<close>
  \<open>findall param_pattern (py ''<parameter name="n">'' @ replicate n 49 @ py ''</parameter>'')
     = [(py ''n'', replicate n 49)]\<close>
  by (simp_all add: py_def findall_Nil findall_None findall_Some findall_replicate
      lazy_until_replicate patterns_digit match_lit_digit
      tool_call_pattern_def qwen_tool_call_pattern_def invoke_pattern_def param_pattern_def
      match_lit_def match_name_def startswith_def cons_fst_def)


text \<open>
  C7 at an invoke block whose parameter value is a run of 4301 digits, and at the same
  parameter in a tagged-function block: \<open>json.loads\<close> raises \<open>ValueError\<close>, which the
  \<open>except json.JSONDecodeError\<close> around it does not catch, so that the value is not
  stored as a string and \<open>from_xml\<close> returns nothing: it raises, whatever the depths
  of the interpreter.
\<close>

theorem from_xml_long_integer_parameter:
  \<open>from_xml env
     (py ''<invoke name="f"><parameter name="n">'' @ replicate 4301 (ord CHR ''1'')
      @ py ''</parameter></invoke>'')
     = Inl ValueError
   \<and> from_xml env
     (py ''<tool_call><function=f><parameter=n>'' @ replicate 4301 (ord CHR ''1'')
      @ py ''</parameter></function></tool_call>'')
     = Inl ValueError
   \<and> param_value_of env (replicate 4301 (ord CHR ''1'')) = Inl ValueError\<close>
proof (intro conjI)
  have l: "json_loads (loads_depth env) (replicate 4301 49) = Inl ValueError"
    by (rule json_loads_long_integer) (simp add: max_str_digits_def)
  show p: \<open>param_value_of env (replicate 4301 (ord CHR ''1'')) = Inl ValueError\<close>
    by (simp add: param_value_of_def strip_digits l)
  show \<open>from_xml env
     (py ''<invoke name="f"><parameter name="n">'' @ replicate 4301 (ord CHR ''1'')
      @ py ''</parameter></invoke>'')
     = Inl ValueError\<close>
    using p by (simp add: from_xml_def invoke_long_integer function_block_def parameters_of_def)
  show \<open>from_xml env
     (py ''<tool_call><function=f><parameter=n>'' @ replicate 4301 (ord CHR ''1'')
      @ py ''</parameter></function></tool_call>'')
     = Inl ValueError\<close>
    using p by (simp add: from_xml_def qwen_long_integer function_block_def parameters_of_def)
qed

section \<open>Reading back what json.dumps wrote\<close>

subsection \<open>Strings\<close>








lemma low_surrogate_next_Nil [simp]: "low_surrogate_next [] = None"
  by (simp add: low_surrogate_next_def startswith_def)

lemma low_surrogate_next_Cons:
  "c \<noteq> 92 \<Longrightarrow> low_surrogate_next (c # t) = None"
  "e \<noteq> 117 \<Longrightarrow> low_surrogate_next (c # e # t) = None"
  by (simp_all add: low_surrogate_next_def startswith_def)




lemma high_surrogate_of_pair: "is_high_surrogate (55296 + n mod 1024)"
  by (simp add: is_high_surrogate_def) 

lemma low_surrogate_of_pair: "is_low_surrogate (56320 + n mod 1024)"
  by (simp add: is_low_surrogate_def)



lemma length_u_escape [simp]: "length (u_escape n) = 6"
  by (simp add: u_escape_def)




lemma low_surrogate_next_quote [simp]: "low_surrogate_next (34 # t) = None"
  by (simp add: low_surrogate_next_Cons)


subsection \<open>Numbers\<close>

definition first_ok :: "(nat \<Rightarrow> bool) \<Rightarrow> pystr \<Rightarrow> bool" where
  "first_ok P r = (case r of [] \<Rightarrow> True | c # _ \<Rightarrow> P c)"

definition delim :: "pystr \<Rightarrow> bool" where
  "delim r = first_ok (\<lambda>c. c = 44 \<or> c = 93 \<or> c = 125) r"

lemma first_ok_simps [simp]: "first_ok P [] = True" "first_ok P (c # r) = P c"
  by (simp_all add: first_ok_def)

lemma first_ok_mono: "first_ok P r \<Longrightarrow> (\<And>c. P c \<Longrightarrow> Q c) \<Longrightarrow> first_ok Q r"
  by (cases r) auto

lemma takeWhile_append_stop:
  "first_ok (\<lambda>c. \<not> P c) r \<Longrightarrow> takeWhile P (takeWhile P xs @ r) = takeWhile P xs"
  by (induction xs) (auto simp: first_ok_def split: list.splits)

lemma dropWhile_append_stop:
  "first_ok (\<lambda>c. \<not> P c) r \<Longrightarrow> dropWhile P (takeWhile P xs @ r) = r"
  by (induction xs) (auto simp: first_ok_def split: list.splits)

lemma match_integer_cases:
  assumes "match_integer s = Some (ip, r)"
  obtains (zero) "ip = [48]" "s = 48 # r"
  | (digits) d ds where "is_digit d" "d \<noteq> 48" "s = d # ds"
      "ip = d # takeWhile is_digit ds" "r = dropWhile is_digit ds"
proof (cases s)
  case Nil
  with assms show ?thesis by (simp add: match_integer_def)
next
  case (Cons d ds)
  show ?thesis
  proof (cases "d = 48")
    case True
    with assms Cons zero show ?thesis by (simp add: match_integer_def)
  next
    case False
    with assms Cons digits [of d ds] show ?thesis
      by (simp add: match_integer_def split: if_splits)
  qed
qed

lemma match_integer_stable:
  assumes "match_integer s = Some (ip, r)"
  shows "s = ip @ r" and "ip \<noteq> []" and "is_digit (hd ip)"
    and "first_ok (\<lambda>c. \<not> is_digit c) r' \<Longrightarrow> match_integer (ip @ r') = Some (ip, r')"
  using assms
  by (cases rule: match_integer_cases;
      simp add: match_integer_def takeWhile_append_stop dropWhile_append_stop is_digit_def)+


lemma match_frac_cases:
  assumes "match_frac s = (f, r)"
  obtains (none) "f = []" "r = s"
  | (frac) d ds where "is_digit d" "s = 46 # d # ds"
      "f = 46 # d # takeWhile is_digit ds" "r = dropWhile is_digit ds"
proof (cases s)
  case Nil
  with assms none show ?thesis by (simp add: match_frac_def)
next
  case c: (Cons c cs)
  show ?thesis
  proof (cases cs)
    case Nil
    with assms c none show ?thesis by (simp add: match_frac_def)
  next
    case (Cons d ds)
    show ?thesis
    proof (cases "c = 46 \<and> is_digit d")
      case True
      with assms c Cons frac [of d ds] show ?thesis by (simp add: match_frac_def)
    next
      case False
      with assms c Cons none show ?thesis by (auto simp: match_frac_def)
    qed
  qed
qed

lemma match_frac_stable:
  assumes "match_frac s = (f, r)"
  shows "s = f @ r" and "f = [] \<or> hd f = 46"
    and "f \<noteq> [] \<Longrightarrow> first_ok (\<lambda>c. \<not> is_digit c) r' \<Longrightarrow> match_frac (f @ r') = (f, r')"
  using assms
  by (cases rule: match_frac_cases;
      simp add: match_frac_def takeWhile_append_stop dropWhile_append_stop)+

lemma match_frac_none: "first_ok (\<lambda>c. c \<noteq> 46) r' \<Longrightarrow> match_frac r' = ([], r')"
  by (cases r') (auto simp: match_frac_def split: list.splits)

lemma match_sign_cases:
  obtains (sign) c r where "c = 45 \<or> c = 43" "s = c # r" "match_sign s = ([c], r)"
  | (none) "match_sign s = ([], s)" "first_ok (\<lambda>c. c \<noteq> 45 \<and> c \<noteq> 43) s"
  by (cases s) (auto simp: match_sign_def)

lemma match_exp_cases:
  assumes "match_exp s = (e, r)"
  obtains (none) "e = []" "r = s"
  | (exp) c sg d ds where "c = 101 \<or> c = 69" "sg = [] \<or> sg = [45] \<or> sg = [43]" "is_digit d"
      "s = c # sg @ d # ds" "e = c # sg @ d # takeWhile is_digit ds" "r = dropWhile is_digit ds"
proof (cases s)
  case Nil
  with assms none show ?thesis by (simp add: match_exp_def)
next
  case c: (Cons c cs)
  show ?thesis
  proof (cases "c = 101 \<or> c = 69")
    case False
    with assms c none show ?thesis by (auto simp: match_exp_def)
  next
    case True
    obtain sg t where m: "match_sign cs = (sg, t)" by (cases "match_sign cs")
    have sg: "cs = sg @ t \<and> (sg = [] \<or> sg = [45] \<or> sg = [43])"
      using m by (cases cs rule: match_sign_cases) auto
    show ?thesis
    proof (cases t)
      case Nil
      with assms c True m none show ?thesis by (auto simp: match_exp_def)
    next
      case (Cons d ds)
      show ?thesis
      proof (cases "is_digit d")
        case False
        with assms c True m Cons none show ?thesis by (auto simp: match_exp_def)
      next
        case d: True
        with assms c True m Cons sg exp [of c sg d ds] show ?thesis
          by (auto simp: match_exp_def)
      qed
    qed
  qed
qed

lemma match_sign_append:
  "sg = [] \<or> sg = [45] \<or> sg = [43] \<Longrightarrow> is_digit d \<Longrightarrow> match_sign (sg @ d # t) = (sg, d # t)"
  by (auto simp: match_sign_def is_digit_def)

lemma match_exp_stable:
  assumes "match_exp s = (e, r)"
  shows "s = e @ r" and "e = [] \<or> hd e = 101 \<or> hd e = 69"
    and "e \<noteq> [] \<Longrightarrow> first_ok (\<lambda>c. \<not> is_digit c) r' \<Longrightarrow> match_exp (e @ r') = (e, r')"
proof -
  from assms show "s = e @ r" "e = [] \<or> hd e = 101 \<or> hd e = 69"
    by (cases rule: match_exp_cases; auto)+
  assume "e \<noteq> []" and r': "first_ok (\<lambda>c. \<not> is_digit c) r'"
  with assms show "match_exp (e @ r') = (e, r')"
  proof (cases rule: match_exp_cases)
    case none
    with \<open>e \<noteq> []\<close> show ?thesis by simp
  next
    case (exp c sg d ds)
    have "match_sign (sg @ d # takeWhile is_digit ds @ r') = (sg, d # takeWhile is_digit ds @ r')"
      using exp(2,3) by (rule match_sign_append)
    with exp r' show ?thesis
      by (auto simp: match_exp_def takeWhile_append_stop dropWhile_append_stop)
  qed
qed

lemma match_exp_none: "first_ok (\<lambda>c. c \<noteq> 101 \<and> c \<noteq> 69) r' \<Longrightarrow> match_exp r' = ([], r')"
  by (cases r') (auto simp: match_exp_def)


lemma match_minus_simps:
  "match_minus (45 # t) = ([45], t)"
  "first_ok (\<lambda>c. c \<noteq> 45) t \<Longrightarrow> match_minus t = ([], t)"
  by (cases t; simp add: match_minus_def)+

lemma match_minus_cases:
  obtains (minus) t where "s = 45 # t" "match_minus s = ([45], t)"
  | (none) "match_minus s = ([], s)" "first_ok (\<lambda>c. c \<noteq> 45) s"
  by (cases s) (auto simp: match_minus_def)

text \<open>The text of a number: a sign, an integer part, a fraction and an exponent.\<close>

lemma match_number_stable:
  assumes "match_number s = Inr (v, r)" and "delim r'"
  shows "\<exists>lit. s = lit @ r \<and> lit \<noteq> [] \<and> (hd lit = 45 \<or> is_digit (hd lit))
           \<and> (hd lit = 45 \<longrightarrow> (\<exists>d t. lit = 45 # d # t \<and> is_digit d))
           \<and> match_number (lit @ r') = Inr (v, r')
           \<and> (\<forall>l. v = JFloat l \<longrightarrow> l = lit)"
proof -
  obtain sign s1 where sg: "match_minus s = (sign, s1)" by (cases "match_minus s")
  from assms(1) sg obtain ip s2 where ip: "match_integer s1 = Some (ip, s2)"
    by (auto simp: match_number_def split: option.splits)
  obtain f s3 where f: "match_frac s2 = (f, s3)" by (cases "match_frac s2")
  obtain e s4 where e: "match_exp s3 = (e, s4)" by (cases "match_exp s3")
  let ?val = "if f = [] \<and> e = []
              then JInt (if sign = [] then int (nat_of_digits ip) else - int (nat_of_digits ip))
              else JFloat (sign @ ip @ f @ e)"
  from assms(1) sg ip f e have v: "v = ?val" and r: "r = s4"
    and ok: "f = [] \<and> e = [] \<longrightarrow> \<not> max_str_digits < length ip"
    by (auto simp: match_number_def split: if_splits)
  note I = match_integer_stable [OF ip] and F = match_frac_stable [OF f]
    and E = match_exp_stable [OF e]
  have sign: "(sign = [] \<and> s1 = s) \<or> (sign = [45] \<and> s = 45 # s1)"
    using sg by (cases s rule: match_minus_cases) auto
  have nd_r': "first_ok (\<lambda>c. \<not> is_digit c) r'" "first_ok (\<lambda>c. c \<noteq> 46) r'"
    "first_ok (\<lambda>c. c \<noteq> 101 \<and> c \<noteq> 69) r'"
    using assms(2) unfolding delim_def by (cases r'; auto simp: is_digit_def)+
  have e': "match_exp (e @ r') = (e, r')"
    using E(3) [of r'] match_exp_none [of r'] nd_r' by (cases "e = []") auto
  have nd_e: "first_ok (\<lambda>c. \<not> is_digit c) (e @ r')" "first_ok (\<lambda>c. c \<noteq> 46) (e @ r')"
    using E(2) nd_r' by (cases e; auto simp: is_digit_def)+
  have f': "match_frac (f @ e @ r') = (f, e @ r')"
    using F(3) [of "e @ r'"] match_frac_none [of "e @ r'"] nd_e by (cases "f = []") auto
  have nd_f: "first_ok (\<lambda>c. \<not> is_digit c) (f @ e @ r')"
    using F(2) nd_e by (cases f; auto simp: is_digit_def)
  have i': "match_integer (ip @ f @ e @ r') = Some (ip, f @ e @ r')"
    using I(4) [OF nd_f] .
  have m': "match_minus (sign @ ip @ f @ e @ r') = (sign, ip @ f @ e @ r')"
    using sign I(2,3) by (cases ip) (auto simp: match_minus_simps is_digit_def)
  have "match_number ((sign @ ip @ f @ e) @ r') = Inr (?val, r')"
    using ok by (simp add: match_number_def m' i' f' e')
  moreover have "s = (sign @ ip @ f @ e) @ r"
    using sign I(1) F(1) E(1) r by auto
  moreover have "hd (sign @ ip @ f @ e) = 45 \<or> is_digit (hd (sign @ ip @ f @ e))"
    using sign I(2,3) by auto
  moreover have "hd (sign @ ip @ f @ e) = 45 \<longrightarrow>
      (\<exists>d t. sign @ ip @ f @ e = 45 # d # t \<and> is_digit d)"
    using sign I(2,3) by (cases ip) (auto simp: is_digit_def)
  moreover have "sign @ ip @ f @ e \<noteq> []" using I(2) by simp
  ultimately show ?thesis
    using v by (intro exI [of _ "sign @ ip @ f @ e"]) auto
qed


lemma digits_nonempty [simp]: "digits n \<noteq> []"
  by (subst digits.simps) simp






text \<open>The texts that \<open>json.loads\<close> reads as a float.\<close>

definition valid_float :: "pystr \<Rightarrow> bool" where
  "valid_float lit =
     (lit = py ''NaN'' \<or> lit = py ''Infinity'' \<or> lit = py ''-Infinity''
      \<or> match_number lit = Inr (JFloat lit, []))"






lemma match_number_float_valid:
  assumes "match_number s = Inr (JFloat lit, r)"
  shows "valid_float lit"
proof -
  have "delim []" by (simp add: delim_def)
  from match_number_stable [OF assms this] show ?thesis
    by (auto simp: valid_float_def)
qed

lemma match_literal_float_valid:
  assumes "match_literal s = Inr (JFloat lit, r)"
  shows "valid_float lit"
  using assms match_number_float_valid [of s lit r]
  by (auto simp: match_literal_def valid_float_def split: if_splits)


text \<open>
  A value is well formed when each float in it is the text of a float. \<open>norm\<close> is the
  value that is read back from the serialization: a surrogate pair in a string is
  joined, and an object keeps the last value of a key.
\<close>
subsection \<open>Values\<close>





























section \<open>The arguments as JSON text\<close>




subsection \<open>The array format of from_json\<close>











subsection \<open>Every path of the decoders\<close>
















end
